theory Spec2Isabelle
  imports Complex_Main
begin

section \<open>Sample values\<close>

text \<open>
  The scripts work on numpy arrays of double-precision samples. A sample is modelled as
  a not-a-number, one of the two infinities, or a finite value. A finite value is a real
  number and the sign of zero is not kept. The operations \<open>fl_add\<close> to \<open>fl_div\<close>
  below follow the rules of the doubles for NaN and the infinities and are exact on
  finite values. Comparison, absolute value and multiplication by 0 or 1 are exact on
  doubles too; where a result hangs on the rounding of a difference, a product, a
  quotient or a sum, the operation is a parameter of the model (\<open>numerics\<close> below).
\<close>

datatype fl = NaN | PInf | NInf | Fin real

datatype error = ValueError | IndexError

fun isnan :: "fl \<Rightarrow> bool" where
  "isnan NaN = True"
| "isnan _ = False"

fun isfinite :: "fl \<Rightarrow> bool" where
  "isfinite (Fin _) = True"
| "isfinite _ = False"

text \<open>The value of a finite sample (0 for the others, which no caller reads).\<close>

fun fin_val :: "fl \<Rightarrow> real" where
  "fin_val (Fin r) = r"
| "fin_val _ = 0"

fun fl_add :: "fl \<Rightarrow> fl \<Rightarrow> fl" where
  "fl_add NaN _ = NaN"
| "fl_add _ NaN = NaN"
| "fl_add PInf NInf = NaN"
| "fl_add NInf PInf = NaN"
| "fl_add PInf _ = PInf"
| "fl_add _ PInf = PInf"
| "fl_add NInf _ = NInf"
| "fl_add _ NInf = NInf"
| "fl_add (Fin x) (Fin y) = Fin (x + y)"

fun fl_neg :: "fl \<Rightarrow> fl" where
  "fl_neg NaN = NaN"
| "fl_neg PInf = NInf"
| "fl_neg NInf = PInf"
| "fl_neg (Fin x) = Fin (- x)"

definition fl_sub :: "fl \<Rightarrow> fl \<Rightarrow> fl" where
  "fl_sub a b = fl_add a (fl_neg b)"

fun fl_abs :: "fl \<Rightarrow> fl" where
  "fl_abs NaN = NaN"
| "fl_abs PInf = PInf"
| "fl_abs NInf = PInf"
| "fl_abs (Fin x) = Fin \<bar>x\<bar>"

text \<open>The sign of a sample that is not NaN: -1, 0 or 1.\<close>

fun fl_sgn :: "fl \<Rightarrow> int" where
  "fl_sgn PInf = 1"
| "fl_sgn NInf = - 1"
| "fl_sgn (Fin x) = (if x < 0 then - 1 else if x = 0 then 0 else 1)"
| "fl_sgn NaN = 0"

definition inf_of_sign :: "int \<Rightarrow> fl" where
  "inf_of_sign s = (if s < 0 then NInf else if s = 0 then NaN else PInf)"

fun fl_mul :: "fl \<Rightarrow> fl \<Rightarrow> fl" where
  "fl_mul NaN _ = NaN"
| "fl_mul _ NaN = NaN"
| "fl_mul (Fin x) (Fin y) = Fin (x * y)"
| "fl_mul a b = inf_of_sign (fl_sgn a * fl_sgn b)"

text \<open>
  Division of doubles never raises in numpy: a finite value over zero is an infinity
  (the zero is taken as positive), zero over zero and infinity over infinity are NaN.
\<close>

fun fl_div :: "fl \<Rightarrow> fl \<Rightarrow> fl" where
  "fl_div NaN _ = NaN"
| "fl_div _ NaN = NaN"
| "fl_div (Fin x) (Fin y) = (if y = 0 then inf_of_sign (fl_sgn (Fin x)) else Fin (x / y))"
| "fl_div (Fin x) _ = Fin 0"
| "fl_div a (Fin y) = inf_of_sign (fl_sgn a * (if y < 0 then - 1 else 1))"
| "fl_div _ _ = NaN"

text \<open>\<open>a >= b\<close> on doubles: false as soon as one side is NaN.\<close>

fun fl_ge :: "fl \<Rightarrow> fl \<Rightarrow> bool" where
  "fl_ge NaN _ = False"
| "fl_ge _ NaN = False"
| "fl_ge PInf _ = True"
| "fl_ge _ NInf = True"
| "fl_ge NInf _ = False"
| "fl_ge _ PInf = False"
| "fl_ge (Fin x) (Fin y) = (y \<le> x)"

text \<open>\<open>np.fmax\<close>: the larger of two samples, a NaN losing against anything else.\<close>

definition fmax :: "fl \<Rightarrow> fl \<Rightarrow> fl" where
  "fmax a b = (if isnan a then b else if isnan b then a else if fl_ge a b then a else b)"

section \<open>Double-precision operations\<close>

text \<open>
  The operations on doubles whose rounding a result can hang on are parameters of the
  model, so that what is proved with them holds whatever their rounding and their
  overflow: \<open>np.deg2rad\<close> of an integer latitude and \<open>np.cos\<close> of its result, which
  are finite doubles; the difference, the product and the quotient of two doubles,
  which may overflow to an infinity or be NaN; the sum of one column of doubles as
  \<open>ndarray.sum(axis = 0)\<close> accumulates it; and the constant \<open>math.e\<close>.
\<close>

record numerics =
  np_deg2rad :: "int \<Rightarrow> real"
  np_cos :: "real \<Rightarrow> real"
  np_sub :: "fl \<Rightarrow> fl \<Rightarrow> fl"
  np_mul :: "fl \<Rightarrow> fl \<Rightarrow> fl"
  np_div :: "fl \<Rightarrow> fl \<Rightarrow> fl"
  np_sum :: "fl list \<Rightarrow> fl"
  math_e :: real

text \<open>
  The same operations without rounding, for the examples: the real cosine, the exact
  difference, product and quotient, the sum from 0, and the number e.
\<close>

definition exact_numerics :: numerics where
  "exact_numerics =
     \<lparr>np_deg2rad = \<lambda>\<phi>. real_of_int \<phi> * (pi / 180), np_cos = cos,
      np_sub = fl_sub, np_mul = fl_mul, np_div = fl_div, np_sum = foldl fl_add (Fin 0),
      math_e = exp 1\<rparr>"

text \<open>
  The rounding of IEEE 754 binary64, to nearest with ties to even: a real number is
  rounded to a multiple of the unit of its binade, \<open>2^(e - 52)\<close> for
  \<open>2^e <= |x| < 2^(e + 1)\<close> and \<open>2^-1074\<close> below \<open>2^-1022\<close>, and overflows to an
  infinity when the rounded magnitude reaches \<open>2^1024\<close>.
\<close>

definition round_half_even :: "real \<Rightarrow> int" where
  "round_half_even y =
     (let n = \<lfloor>y\<rfloor> in
      if y - of_int n < 1 / 2 then n
      else if 1 / 2 < y - of_int n then n + 1
      else if even n then n else n + 1)"

definition binary64 :: "real \<Rightarrow> fl" where
  "binary64 x =
     (if x = 0 then Fin 0
      else let e = max \<lfloor>log 2 \<bar>x\<bar>\<rfloor> (- 1022);
               ulp = 2 powr (of_int e - 52);
               r = of_int (round_half_even (x / ulp)) * ulp
           in if 2 ^ 1024 \<le> \<bar>r\<bar> then (if 0 < x then PInf else NInf) else Fin r)"

definition round_fl :: "fl \<Rightarrow> fl" where
  "round_fl a = (case a of Fin r \<Rightarrow> binary64 r | _ \<Rightarrow> a)"

text \<open>
  The operations of the estimator as IEEE 754 defines them, each the exact result
  rounded, and \<open>math.e\<close> as the double nearest to e, \<open>0x1.5bf0a8b145769p+1\<close>. The
  estimator reads no other field; they are left as in \<open>exact_numerics\<close>.
\<close>

definition binary64_numerics :: numerics where
  "binary64_numerics =
     exact_numerics
       \<lparr>np_sub := \<lambda>a b. round_fl (fl_sub a b),
        np_div := \<lambda>a b. round_fl (fl_div a b),
        math_e := 6121026514868073 / 2 ^ 51\<rparr>"

section \<open>Figure3.py: the e-folding estimator\<close>

subsection \<open>Reductions of one-dimensional arrays\<close>

text \<open>
  \<open>np.nanmax\<close> of a plain array is \<open>np.fmax.reduce\<close>; it raises ValueError on an
  empty array (the reduction has no identity) and returns NaN when all samples are NaN.
\<close>

definition nanmax :: "fl list \<Rightarrow> error + fl" where
  "nanmax a = (case a of [] \<Rightarrow> Inl ValueError | x # xs \<Rightarrow> Inr (foldl fmax x xs))"

text \<open>
  \<open>argmin\<close> of doubles, as numpy's loop runs it: \<open>mp\<close> is the least sample so far and
  \<open>min_ind\<close> its index; a sample replaces it when \<open>not (sample >= mp)\<close>, and the loop
  stops at the first NaN. So the result is the first NaN if there is one and the first
  occurrence of the minimum otherwise. An empty array raises ValueError.
\<close>

fun argmin_loop :: "fl \<Rightarrow> nat \<Rightarrow> nat \<Rightarrow> fl list \<Rightarrow> nat" where
  "argmin_loop mp min_ind i [] = min_ind"
| "argmin_loop mp min_ind i (x # xs) =
     (if \<not> fl_ge x mp
      then (if isnan x then i else argmin_loop x i (Suc i) xs)
      else argmin_loop mp min_ind (Suc i) xs)"

definition argmin :: "fl list \<Rightarrow> error + nat" where
  "argmin a = (case a of [] \<Rightarrow> Inl ValueError
               | x # xs \<Rightarrow> Inr (if isnan x then 0 else argmin_loop x 0 1 xs))"

text \<open>
  \<^verbatim>\<open>
  def find_nearest(array, value):
      array = np.asarray(array)
      idx = (np.abs(array - value)).argmin()
      return idx
  \<close>
  The subtraction is that of the doubles: the distances that \<open>argmin\<close> compares are
  rounded.
\<close>

definition find_nearest :: "numerics \<Rightarrow> fl list \<Rightarrow> fl \<Rightarrow> error + nat" where
  "find_nearest nm array v = argmin (map (\<lambda>a. fl_abs (np_sub nm a v)) array)"

text \<open>\<open>data_copy[np.isnan(data_copy)] = 0.0\<close>, as a function of the contents.\<close>

definition nan_to_zero :: "fl list \<Rightarrow> fl list" where
  "nan_to_zero a = map (\<lambda>x. if isnan x then Fin 0 else x) a"

text \<open>
  Lines 75 to 81 of \<open>e_folding_time\<close>, on the contents of \<open>data_copy\<close>:
  \<^verbatim>\<open>
      x_max = find_nearest(data_copy, np.nanmax(data_copy))
      x_e = x_max + find_nearest(data_copy[x_max:], (np.nanmax(data_copy) / math.e))
      e_time = x_e - x_max
      return e_time
  \<close>
  Every failure is a ValueError of numpy: \<open>nanmax\<close> of an empty array.
\<close>

definition e_folding_search :: "numerics \<Rightarrow> fl list \<Rightarrow> error + int" where
  "e_folding_search nm data_copy =
     (case nanmax data_copy of
        Inl err \<Rightarrow> Inl err
      | Inr m \<Rightarrow>
         (case find_nearest nm data_copy m of
            Inl err \<Rightarrow> Inl err
          | Inr x_max \<Rightarrow>
             (case nanmax data_copy of
                Inl err \<Rightarrow> Inl err
              | Inr m' \<Rightarrow>
                 (case find_nearest nm (drop x_max data_copy) (np_div nm m' (Fin (math_e nm))) of
                    Inl err \<Rightarrow> Inl err
                  | Inr k \<Rightarrow> (let x_e = x_max + k in Inr (int x_e - int x_max))))))"

text \<open>
  \<^verbatim>\<open>
  def e_folding_time(data):
      #create copy of data (start from eruption day, 20) and set nan to zero
      data_copy = copy.copy(data[20:])
      data_copy[np.isnan(data_copy)] = 0.0
      ...
  \<close>
  The argument is a plain one-dimensional array of doubles (as \<open>so2_ash\<close> and
  \<open>so2_only\<close> are), given here by its contents; the slice \<open>data[20:]\<close> of a shorter
  array is empty. The masked array \<open>omps_area_average\<close> that the script also passes is
  not covered by this model.
\<close>

definition e_folding_time :: "numerics \<Rightarrow> fl list \<Rightarrow> error + int" where
  "e_folding_time nm data =
     (let data_copy = nan_to_zero (drop 20 data) in e_folding_search nm data_copy)"

text \<open>Line 87, \<open>so2_ash_e_time = e_folding_time(so2_ash)\<close>: the caller passes the
  whole series.\<close>

definition so2_ash_e_time :: "numerics \<Rightarrow> fl list \<Rightarrow> error + int" where
  "so2_ash_e_time nm so2_ash = e_folding_time nm so2_ash"

text \<open>
  The estimator as the specification describes it, for comparison: the same search, run
  over the whole segment it is given, with no samples discarded.
\<close>

definition e_folding_whole :: "numerics \<Rightarrow> fl list \<Rightarrow> error + int" where
  "e_folding_whole nm segment = e_folding_search nm (nan_to_zero segment)"

text \<open>
  The index that \<open>argmin\<close> returns on a list of doubles, said without the loop: the
  first NaN if there is one, and otherwise the first index at which the list is least.
\<close>

definition first_nearest :: "fl list \<Rightarrow> nat \<Rightarrow> bool" where
  "first_nearest ds k \<longleftrightarrow>
     k < length ds \<and>
     (if list_ex isnan ds then isnan (ds ! k) \<and> (\<forall>j<k. \<not> isnan (ds ! j))
      else (\<forall>j<length ds. fl_ge (ds ! j) (ds ! k)) \<and> (\<forall>j<k. \<not> fl_ge (ds ! k) (ds ! j)))"

text \<open>
  The same for real distances: the first index at which a list of reals is least.
\<close>

definition first_least :: "real list \<Rightarrow> nat \<Rightarrow> bool" where
  "first_least ds k \<longleftrightarrow>
     k < length ds \<and> (\<forall>j<length ds. ds ! k \<le> ds ! j) \<and> (\<forall>j<k. ds ! k < ds ! j)"

text \<open>
  The search of the specification on a segment of real samples: \<open>x_max\<close> is the first
  index of the maximum, \<open>x_e\<close> the first index at or after \<open>x_max\<close> whose value is
  nearest to the maximum over e, and the result is \<open>x_e - x_max\<close>.
\<close>

definition nearest_search :: "real list \<Rightarrow> int \<Rightarrow> bool" where
  "nearest_search seg r \<longleftrightarrow>
     (\<exists>x_max x_e. r = int x_e - int x_max \<and>
        x_max < length seg \<and> seg ! x_max = Max (set seg) \<and>
        (\<forall>i<x_max. seg ! i < Max (set seg)) \<and>
        x_max \<le> x_e \<and> x_e < length seg \<and>
        (\<forall>j<length seg. x_max \<le> j \<longrightarrow>
           \<bar>seg ! x_e - Max (set seg) / exp 1\<bar> \<le> \<bar>seg ! j - Max (set seg) / exp 1\<bar>) \<and>
        (\<forall>j<x_e. x_max \<le> j \<longrightarrow>
           \<bar>seg ! x_e - Max (set seg) / exp 1\<bar> < \<bar>seg ! j - Max (set seg) / exp 1\<bar>))"

text \<open>
  The synthetic decay curve of the specification, \<open>f(t) = 10 * exp(-t/5)\<close>, and an
  array of 51 samples that follows it at \<open>t = 0..50\<close> within \<open>\<delta>\<close>, as the doubles
  computed for the curve do.
\<close>

definition decay :: "nat \<Rightarrow> real" where
  "decay t = 10 * exp (- (real t / 5))"

definition near_decay :: "real \<Rightarrow> fl list \<Rightarrow> bool" where
  "near_decay \<delta> data \<longleftrightarrow>
     length data = 51 \<and> (\<forall>t<51. \<exists>c. data ! t = Fin c \<and> \<bar>c - decay t\<bar> \<le> \<delta>)"

text \<open>
  An arithmetic is accurate within \<open>\<delta>\<close> on the range of the curve when the difference
  of two finite values up to 11 in magnitude, and the quotient of one such value by
  \<open>math.e\<close>, are finite and within \<open>\<delta>\<close> of the exact difference and of the exact
  quotient by e. The doubles are, for every \<open>\<delta>\<close> above a few units of \<open>10^-15\<close>.
\<close>

definition accurate :: "real \<Rightarrow> numerics \<Rightarrow> bool" where
  "accurate \<delta> nm \<longleftrightarrow>
     (\<forall>x y. \<bar>x\<bar> \<le> 11 \<and> \<bar>y\<bar> \<le> 11 \<longrightarrow>
        (\<exists>z. np_sub nm (Fin x) (Fin y) = Fin z \<and> \<bar>z - (x - y)\<bar> \<le> \<delta>))
     \<and> (\<forall>x. \<bar>x\<bar> \<le> 11 \<longrightarrow>
        (\<exists>z. np_div nm (Fin x) (Fin (math_e nm)) = Fin z \<and> \<bar>z - x / exp 1\<bar> \<le> \<delta>))"

subsection \<open>The caller's array: a store of buffers\<close>

text \<open>
  Whether the estimator changes its argument depends on which arrays share memory, so
  the store is explicit: a heap is a list of buffers, and a one-dimensional array is a
  window into one of them. A basic slice is a new window on the same buffer;
  \<open>copy.copy\<close> allocates a new buffer; an indexed assignment writes into the buffer of
  the array it is applied to.
\<close>

record heap =
  buffers :: "fl list list"

record ndarray1 =
  base :: nat
  offset :: nat
  len :: nat

definition valid_array :: "heap \<Rightarrow> ndarray1 \<Rightarrow> bool" where
  "valid_array h a \<longleftrightarrow>
     base a < length (buffers h) \<and> offset a + len a \<le> length (buffers h ! base a)"

definition contents :: "heap \<Rightarrow> ndarray1 \<Rightarrow> fl list" where
  "contents h a = take (len a) (drop (offset a) (buffers h ! base a))"

text \<open>\<open>a[k:]\<close> for \<open>k >= 0\<close>: a view, no copy.\<close>

definition slice_from :: "nat \<Rightarrow> ndarray1 \<Rightarrow> ndarray1" where
  "slice_from k a = a\<lparr>offset := offset a + min k (len a), len := len a - k\<rparr>"

text \<open>\<open>copy.copy(a)\<close>: a new buffer holding the contents of \<open>a\<close>.\<close>

definition copy_copy :: "heap \<Rightarrow> ndarray1 \<Rightarrow> heap \<times> ndarray1" where
  "copy_copy h a =
     (h\<lparr>buffers := buffers h @ [contents h a]\<rparr>,
      \<lparr>base = length (buffers h), offset = 0, len = len a\<rparr>)"

text \<open>\<open>a[np.isnan(a)] = 0.0\<close>: written through the window into \<open>a\<close>'s buffer.\<close>

definition setitem_isnan_zero :: "heap \<Rightarrow> ndarray1 \<Rightarrow> heap" where
  "setitem_isnan_zero h a =
     h\<lparr>buffers := (buffers h)[base a :=
         (let buf = buffers h ! base a in
          take (offset a) buf @ nan_to_zero (take (len a) (drop (offset a) buf))
            @ drop (offset a + len a) buf)]\<rparr>"

text \<open>\<open>e_folding_time\<close> with the store: the heap after the call and the result.\<close>

definition e_folding_time_store ::
  "numerics \<Rightarrow> heap \<Rightarrow> ndarray1 \<Rightarrow> heap \<times> (error + int)" where
  "e_folding_time_store nm h data =
     (let (h1, data_copy) = copy_copy h (slice_from 20 data);
          h2 = setitem_isnan_zero h1 data_copy
      in (h2, e_folding_search nm (contents h2 data_copy)))"

text \<open>
  For contrast, the estimator without \<open>copy.copy\<close>: the replacement is then written
  through the slice into the caller's buffer.
\<close>

definition e_folding_time_in_place ::
  "numerics \<Rightarrow> heap \<Rightarrow> ndarray1 \<Rightarrow> heap \<times> (error + int)" where
  "e_folding_time_in_place nm h data =
     (let data_view = slice_from 20 data;
          h2 = setitem_isnan_zero h data_view
      in (h2, e_folding_search nm (contents h2 data_view)))"

text \<open>Inputs used in the examples below.\<close>

definition decay_curve :: "fl list" where
  "decay_curve = map (\<lambda>t. Fin (decay t)) [0..<51]"

definition c2_data :: "fl list" where
  "c2_data = replicate 20 (Fin 0) @ [Fin 100000000000000000, Fin (- 2), Fin (- 1)]"

definition c6_data :: "fl list" where
  "c6_data = Fin 1 # replicate 19 (Fin 0) @ [Fin 0, Fin 0]"

definition c10_heap :: heap where
  "c10_heap = \<lparr>buffers = [replicate 20 (Fin 1) @ [NaN, Fin 2]]\<rparr>"

definition c10_data :: ndarray1 where
  "c10_data = \<lparr>base = 0, offset = 0, len = 22\<rparr>"

section \<open>Two-dimensional fields\<close>

text \<open>
  The fields the scripts load are two-dimensional arrays, latitude by day. Such an array
  is its shape and its cells; only the cells inside the shape are ever read.
\<close>

record ndarray2 =
  nrows :: nat
  ncols :: nat
  cell :: "nat \<Rightarrow> nat \<Rightarrow> fl"

definition shape :: "ndarray2 \<Rightarrow> nat \<times> nat" where
  "shape a = (nrows a, ncols a)"

text \<open>\<open>np.ones((r, c))\<close>.\<close>

definition ones :: "nat \<times> nat \<Rightarrow> ndarray2" where
  "ones s = \<lparr>nrows = fst s, ncols = snd s, cell = \<lambda>i j. Fin 1\<rparr>"

text \<open>
  \<open>m[np.isnan(ref)] = v\<close> for two-dimensional \<open>m\<close> and \<open>ref\<close>. A boolean index of
  the shape of \<open>m\<close> selects the cells at which it is true. A boolean index of another
  shape is turned into its nonzero indices, and numpy then compares each of its axes
  that is not of length 0 with the axis of \<open>m\<close>, raising IndexError where they differ;
  an index that passes has an axis of length 0, so it selects nothing and \<open>m\<close> is left as
  it is.
\<close>

definition setitem_isnan :: "ndarray2 \<Rightarrow> ndarray2 \<Rightarrow> fl \<Rightarrow> error + ndarray2" where
  "setitem_isnan m ref v =
     (if shape ref = shape m
      then Inr (m\<lparr>cell := \<lambda>i j. if isnan (cell ref i j) then v else cell m i j\<rparr>)
      else if (nrows ref \<noteq> 0 \<and> nrows ref \<noteq> nrows m) \<or> (ncols ref \<noteq> 0 \<and> ncols ref \<noteq> ncols m)
      then Inl IndexError
      else Inr m)"

text \<open>
  numpy's broadcasting of one dimension: equal lengths, or one of them 1; anything
  else makes the operation raise ValueError.
\<close>

definition broadcast_dim :: "nat \<Rightarrow> nat \<Rightarrow> nat option" where
  "broadcast_dim m n =
     (if m = n then Some m else if m = 1 then Some n else if n = 1 then Some m else None)"

text \<open>\<open>a * b\<close> for two-dimensional arrays, with broadcasting.\<close>

definition multiply :: "ndarray2 \<Rightarrow> ndarray2 \<Rightarrow> error + ndarray2" where
  "multiply a b =
     (case (broadcast_dim (nrows a) (nrows b), broadcast_dim (ncols a) (ncols b)) of
        (Some r, Some c) \<Rightarrow>
          Inr \<lparr>nrows = r, ncols = c,
               cell = \<lambda>i j. fl_mul
                 (cell a (if nrows a = 1 then 0 else i) (if ncols a = 1 then 0 else j))
                 (cell b (if nrows b = 1 then 0 else i) (if ncols b = 1 then 0 else j))\<rparr>
      | _ \<Rightarrow> Inl ValueError)"

section \<open>Figure4.py and Figure8.py: masking a model field by observations\<close>

text \<open>
  \<^verbatim>\<open>
  mask = np.ones( (181, 366) )
  mask[np.isnan(omps)] = np.nan
  so2_ash_omps_limits = so2_ash_omps*mask
  so2_only_omps_limits = so2_only_omps*mask
  \<close>
  The script's \<open>mask\<close> is \<open>mask_omps\<close> here, as a function of the observations.
\<close>

definition mask_omps :: "ndarray2 \<Rightarrow> error + ndarray2" where
  "mask_omps omps = setitem_isnan (ones (181, 366)) omps NaN"

definition so2_ash_omps_limits :: "ndarray2 \<Rightarrow> ndarray2 \<Rightarrow> error + ndarray2" where
  "so2_ash_omps_limits so2_ash_omps omps =
     (case mask_omps omps of Inl err \<Rightarrow> Inl err | Inr m \<Rightarrow> multiply so2_ash_omps m)"

definition so2_only_omps_limits :: "ndarray2 \<Rightarrow> ndarray2 \<Rightarrow> error + ndarray2" where
  "so2_only_omps_limits so2_only_omps omps =
     (case mask_omps omps of Inl err \<Rightarrow> Inl err | Inr m \<Rightarrow> multiply so2_only_omps m)"

text \<open>
  Figure8.py:
  \<^verbatim>\<open>
  mask510 = np.ones( (181, 366) )
  mask510[np.isnan(omps_510)] = np.nan
  mask869 = np.ones( (181, 366) )
  mask869[np.isnan(omps_869)] = np.nan
  so2_ash_550_masked = so2_ash_550*mask510
  so2_ash_865_masked = so2_ash_865*mask869
  so2_only_550_masked = so2_only_550*mask510
  so2_only_865_masked = so2_only_865*mask510
  \<close>
\<close>

definition mask510 :: "ndarray2 \<Rightarrow> error + ndarray2" where
  "mask510 omps_510 = setitem_isnan (ones (181, 366)) omps_510 NaN"

definition mask869 :: "ndarray2 \<Rightarrow> error + ndarray2" where
  "mask869 omps_869 = setitem_isnan (ones (181, 366)) omps_869 NaN"

definition so2_ash_550_masked :: "ndarray2 \<Rightarrow> ndarray2 \<Rightarrow> error + ndarray2" where
  "so2_ash_550_masked so2_ash_550 omps_510 =
     (case mask510 omps_510 of Inl err \<Rightarrow> Inl err | Inr m \<Rightarrow> multiply so2_ash_550 m)"

definition so2_ash_865_masked :: "ndarray2 \<Rightarrow> ndarray2 \<Rightarrow> error + ndarray2" where
  "so2_ash_865_masked so2_ash_865 omps_869 =
     (case mask869 omps_869 of Inl err \<Rightarrow> Inl err | Inr m \<Rightarrow> multiply so2_ash_865 m)"

definition so2_only_550_masked :: "ndarray2 \<Rightarrow> ndarray2 \<Rightarrow> error + ndarray2" where
  "so2_only_550_masked so2_only_550 omps_510 =
     (case mask510 omps_510 of Inl err \<Rightarrow> Inl err | Inr m \<Rightarrow> multiply so2_only_550 m)"

definition so2_only_865_masked :: "ndarray2 \<Rightarrow> ndarray2 \<Rightarrow> error + ndarray2" where
  "so2_only_865_masked so2_only_865 omps_510 =
     (case mask510 omps_510 of Inl err \<Rightarrow> Inl err | Inr m \<Rightarrow> multiply so2_only_865 m)"

text \<open>Reading a result: its shape and its cells, if there is one.\<close>

definition result_shape :: "error + ndarray2 \<Rightarrow> (nat \<times> nat) option" where
  "result_shape r = (case r of Inl err \<Rightarrow> None | Inr a \<Rightarrow> Some (shape a))"

definition result_cell :: "error + ndarray2 \<Rightarrow> nat \<Rightarrow> nat \<Rightarrow> fl option" where
  "result_cell r i j = (case r of Inl err \<Rightarrow> None | Inr a \<Rightarrow> Some (cell a i j))"

section \<open>Figure3.py, Figure7.py and Figure8.py: the latitude-weighted average\<close>

text \<open>
  A masked array of \<open>numpy.ma\<close>: the data and, cell by cell, whether it is masked.
  \<open>np.ma.masked_invalid\<close> masks the cells that are not finite, NaN and the infinities
  alike.
\<close>

record marray2 =
  mdata :: ndarray2
  mmask :: "nat \<Rightarrow> nat \<Rightarrow> bool"

definition masked_invalid :: "ndarray2 \<Rightarrow> marray2" where
  "masked_invalid a = \<lparr>mdata = a, mmask = \<lambda>i j. \<not> isfinite (cell a i j)\<rparr>"

text \<open>An entry of a one-dimensional masked result: masked, or a value.\<close>

datatype melem = Masked | Unmasked fl

text \<open>
  Python's adjustment of a slice bound to a sequence of length \<open>n\<close> (step 1): a
  negative bound counts from the end, and the result is clipped to \<open>0..n\<close>.
\<close>

definition adjust_index :: "int \<Rightarrow> nat \<Rightarrow> nat" where
  "adjust_index i n =
     (if i < 0 then (if i + int n < 0 then 0 else nat (i + int n))
      else (if int n \<le> i then n else nat i))"

definition slice_indices :: "int \<Rightarrow> int option \<Rightarrow> nat \<Rightarrow> nat \<times> nat" where
  "slice_indices lo hi n =
     (adjust_index lo n, (case hi of None \<Rightarrow> n | Some h \<Rightarrow> adjust_index h n))"

text \<open>\<open>w[lo:hi]\<close> and \<open>a[lo:hi, :]\<close>; an absent upper bound is \<open>None\<close>.\<close>

definition list_slice :: "int \<Rightarrow> int option \<Rightarrow> 'a list \<Rightarrow> 'a list" where
  "list_slice lo hi xs =
     (let (start, stop) = slice_indices lo hi (length xs)
      in take (stop - start) (drop start xs))"

definition rows_slice :: "int \<Rightarrow> int option \<Rightarrow> ndarray2 \<Rightarrow> ndarray2" where
  "rows_slice lo hi a =
     (let (start, stop) = slice_indices lo hi (nrows a)
      in \<lparr>nrows = stop - start, ncols = ncols a, cell = \<lambda>i j. cell a (start + i) j\<rparr>)"

text \<open>
  The division of \<open>numpy.ma\<close>, \<open>a / b\<close> on unmasked entries: the quotient of the data
  is masked where it is not finite and where the divisor is negligible,
  \<^verbatim>\<open>
  m = ~umath.isfinite(result)
  m |= domain(da, db)        # umath.absolute(a) * self.tolerance >= umath.absolute(b)
  \<close>
  with \<open>tolerance = np.finfo(float).tiny\<close>, the least positive normal double.
\<close>

definition tiny :: real where
  "tiny = 1 / 2 ^ 1022"

definition ma_true_divide :: "numerics \<Rightarrow> fl \<Rightarrow> fl \<Rightarrow> melem" where
  "ma_true_divide nm a b =
     (let result = np_div nm a b in
      if \<not> isfinite result \<or> fl_ge (np_mul nm (fl_abs a) (Fin tiny)) (fl_abs b) then Masked
      else Unmasked result)"

text \<open>
  \<open>np.ma.average(a, axis = 0, weights = w)\<close> for a two-dimensional masked \<open>a\<close> and
  one-dimensional finite weights \<open>w\<close>. The library first checks the length of the
  weights against axis 0 (ValueError otherwise), then, column by column:
  \<^verbatim>\<open>
  wgt = wgt*(~a.mask)
  wgt.mask |= a.mask
  scl = wgt.sum(axis=axis, dtype=result_dtype)
  avg = np.multiply(a, wgt, dtype=result_dtype).sum(axis) / scl
  \<close>
  The weight of a masked cell is 0 and that of another cell is unchanged (a finite
  double times 0 or 1). The sum of a masked array is the sum of its data with 0 in
  place of the masked cells, and it is masked when every cell of the column is; the
  division is the masked one.
\<close>

definition ma_average_axis0 :: "numerics \<Rightarrow> marray2 \<Rightarrow> real list \<Rightarrow> error + melem list" where
  "ma_average_axis0 nm a weights =
     (let k = nrows (mdata a) in
      if length weights \<noteq> k then Inl ValueError
      else Inr (map (\<lambda>j.
        let wgt = map (\<lambda>i. if mmask a i j then Fin 0 else Fin (weights ! i)) [0..<k];
            scl = np_sum nm wgt;
            num = np_sum nm
                    (map (\<lambda>i. if mmask a i j then Fin 0
                               else np_mul nm (cell (mdata a) i j) (Fin (weights ! i))) [0..<k])
        in if list_all (\<lambda>i. mmask a i j) [0..<k] then Masked
           else ma_true_divide nm num scl)
        [0..<ncols (mdata a)]))"

text \<open>
  \<^verbatim>\<open>
  latitude = range(-90, 91)
  #Latitude weighting
  weighting = np.cos(np.deg2rad(latitude))
  \<close>
\<close>

definition latitude :: "int list" where
  "latitude = [-90..90]"

definition weighting :: "numerics \<Rightarrow> real list" where
  "weighting nm = map (\<lambda>\<phi>. np_cos nm (np_deg2rad nm \<phi>)) latitude"

text \<open>
  The expression all three scripts use, with its two slice bounds as parameters:
  \<^verbatim>\<open>
  np.ma.average(np.ma.masked_invalid(F[lo:hi, :]), axis = 0, weights = weighting[lo:hi])
  \<close>
\<close>

definition area_average :: "numerics \<Rightarrow> int \<Rightarrow> int option \<Rightarrow> ndarray2 \<Rightarrow> error + melem list" where
  "area_average nm lo hi F =
     ma_average_axis0 nm (masked_invalid (rows_slice lo hi F)) (list_slice lo hi (weighting nm))"

text \<open>
  Figure3.py, line 52:
  \<^verbatim>\<open>
  omps_area_average = np.ma.average(np.ma.masked_invalid(omps_lon_averaged[120:, :]),
                                    axis = 0, weights = weighting[120:])
  \<close>
  and Figure7.py, line 84, the same expression on \<open>so2_ash_masked\<close>.
\<close>

definition omps_area_average :: "numerics \<Rightarrow> ndarray2 \<Rightarrow> error + melem list" where
  "omps_area_average nm omps_lon_averaged = area_average nm 120 None omps_lon_averaged"

definition so2_ash_masked_mean :: "numerics \<Rightarrow> ndarray2 \<Rightarrow> error + melem list" where
  "so2_ash_masked_mean nm so2_ash_masked = area_average nm 120 None so2_ash_masked"

text \<open>
  The weighted mean as the specification words it, at output index \<open>j\<close>: the sum of
  \<open>weight[i] * F[i]\<close> over the sum of \<open>weight[i]\<close>, both taken over the band indices
  \<open>i\<close> (120 to 180) at which \<open>F[i]\<close> is not NaN, and NaN when there is no such index.
\<close>

definition spec_weighted_average :: "numerics \<Rightarrow> ndarray2 \<Rightarrow> nat \<Rightarrow> fl" where
  "spec_weighted_average nm F j =
     (let idx = filter (\<lambda>i. \<not> isnan (cell F i j)) [120..<181] in
      if idx = [] then NaN
      else np_div nm
             (np_sum nm (map (\<lambda>i. np_mul nm (Fin (weighting nm ! i)) (cell F i j)) idx))
             (np_sum nm (map (\<lambda>i. Fin (weighting nm ! i)) idx)))"

text \<open>
  What the expression computes at output index \<open>j\<close>, in terms of the field, for the
  band of rows \<open>s\<close> to \<open>e - 1\<close>: the two sums run over the rows of the band, a row at
  which the sample is not finite (NaN or an infinity) adding 0 to both; the entry is
  masked when no sample of the band is finite, and otherwise it is the masked quotient
  of the two sums. The band of the scripts is rows 120 to 180.
\<close>

definition band_entry :: "numerics \<Rightarrow> nat \<Rightarrow> nat \<Rightarrow> ndarray2 \<Rightarrow> nat \<Rightarrow> melem" where
  "band_entry nm s e F j =
     (if list_all (\<lambda>i. \<not> isfinite (cell F i j)) [s..<e] then Masked
      else ma_true_divide nm
             (np_sum nm (map (\<lambda>i. if isfinite (cell F i j)
                                   then np_mul nm (cell F i j) (Fin (weighting nm ! i))
                                   else Fin 0) [s..<e]))
             (np_sum nm (map (\<lambda>i. if isfinite (cell F i j) then Fin (weighting nm ! i)
                                   else Fin 0) [s..<e])))"

text \<open>
  The cells of a field that enter the averages of Figure 8: those of rows 120 onward
  that \<open>masked_invalid\<close> leaves unmasked. And the cells at which a field is NaN.
\<close>

definition support :: "ndarray2 \<Rightarrow> (nat \<times> nat) set" where
  "support a =
     set [(i, j). i \<leftarrow> [120..<nrows a], j \<leftarrow> [0..<ncols a], isfinite (cell a i j)]"

definition result_support :: "error + ndarray2 \<Rightarrow> (nat \<times> nat) set option" where
  "result_support r = (case r of Inl err \<Rightarrow> None | Inr a \<Rightarrow> Some (support a))"

definition nan_cells :: "ndarray2 \<Rightarrow> (nat \<times> nat) set" where
  "nan_cells a =
     set [(i, j). i \<leftarrow> [0..<nrows a], j \<leftarrow> [0..<ncols a], isnan (cell a i j)]"

text \<open>
  Figure8.py, lines 66 and 69: the two 865 nm means.
  \<^verbatim>\<open>
  so2_ash_865_mean = np.ma.average(np.ma.masked_invalid(so2_ash_865_masked[120:, :]),
                                   axis = 0, weights = weighting[120:])
  so2_only_865_mean = np.ma.average(np.ma.masked_invalid(so2_only_865_masked[120:, :]),
                                    axis = 0, weights = weighting[120:])
  \<close>
\<close>

definition so2_ash_865_mean :: "numerics \<Rightarrow> ndarray2 \<Rightarrow> ndarray2 \<Rightarrow> error + melem list" where
  "so2_ash_865_mean nm so2_ash_865 omps_869 =
     (case so2_ash_865_masked so2_ash_865 omps_869 of
        Inl err \<Rightarrow> Inl err
      | Inr m \<Rightarrow> area_average nm 120 None m)"

definition so2_only_865_mean :: "numerics \<Rightarrow> ndarray2 \<Rightarrow> ndarray2 \<Rightarrow> error + melem list" where
  "so2_only_865_mean nm so2_only_865 omps_510 =
     (case so2_only_865_masked so2_only_865 omps_510 of
        Inl err \<Rightarrow> Inl err
      | Inr m \<Rightarrow> area_average nm 120 None m)"

section \<open>Fields used in the examples\<close>

definition constant_field :: "nat \<times> nat \<Rightarrow> real \<Rightarrow> ndarray2" where
  "constant_field s c = \<lparr>nrows = fst s, ncols = snd s, cell = \<lambda>i j. Fin c\<rparr>"

definition c1_field :: ndarray2 where
  "c1_field = \<lparr>nrows = 181, ncols = 2,
      cell = \<lambda>i j. if j = 0 then (if i = 120 then PInf else Fin 1) else NaN\<rparr>"

definition c1_nan_field :: ndarray2 where
  "c1_nan_field = \<lparr>nrows = 181, ncols = 2,
      cell = \<lambda>i j. if j = 0 then (if i = 120 then NaN else Fin 1) else NaN\<rparr>"

definition c3_reference :: ndarray2 where
  "c3_reference = \<lparr>nrows = 181, ncols = 366,
      cell = \<lambda>i j. if i = 0 \<and> j = 0 then PInf else if i = 1 \<and> j = 0 then NaN else Fin 1\<rparr>"


definition ramp_field :: ndarray2 where
  "ramp_field = \<lparr>nrows = 181, ncols = 1, cell = \<lambda>i j. Fin (real i)\<rparr>"

definition c9_so2_only_865 :: ndarray2 where
  "c9_so2_only_865 = \<lparr>nrows = 181, ncols = 366,
      cell = \<lambda>i j. if i = 150 \<and> j = 10 then NaN else Fin 1\<rparr>"

definition c9_so2_ash_865 :: ndarray2 where
  "c9_so2_ash_865 = \<lparr>nrows = 181, ncols = 366,
      cell = \<lambda>i j. if i = 150 \<and> j = 10 then NaN else Fin 2\<rparr>"

definition c9_omps_510 :: ndarray2 where
  "c9_omps_510 = \<lparr>nrows = 181, ncols = 366,
      cell = \<lambda>i j. if (i = 0 \<and> j = 0) \<or> (i = 150 \<and> j = 10) then NaN else Fin 1\<rparr>"

definition c9_omps_869 :: ndarray2 where
  "c9_omps_869 = \<lparr>nrows = 181, ncols = 366, cell = \<lambda>i j. Fin 1\<rparr>"

definition w9_omps_510 :: ndarray2 where
  "w9_omps_510 = \<lparr>nrows = 181, ncols = 366,
      cell = \<lambda>i j. if i = 150 \<and> j = 10 then NaN else Fin 1\<rparr>"

section \<open>Properties of the e-folding estimator\<close>

lemma exact_sel [simp]:
  "np_deg2rad exact_numerics = (\<lambda>\<phi>. real_of_int \<phi> * (pi / 180))"
  "np_cos exact_numerics = cos"
  "np_sub exact_numerics = fl_sub"
  "np_mul exact_numerics = fl_mul"
  "np_div exact_numerics = fl_div"
  "np_sum exact_numerics = foldl fl_add (Fin 0)"
  "math_e exact_numerics = exp 1"
  by (simp_all add: exact_numerics_def)

lemma argmin_loop_finite:
  "let k = argmin_loop (Fin m) mi i (map Fin rs) in
     (k = mi \<and> (\<forall>r\<in>set rs. m \<le> r)) \<or>
     (i \<le> k \<and> k - i < length rs \<and> rs ! (k - i) < m \<and>
      (\<forall>j<length rs. rs ! (k - i) \<le> rs ! j) \<and> (\<forall>j<k - i. rs ! (k - i) < rs ! j))"
proof (induction rs arbitrary: m mi i)
  case Nil
  then show ?case by simp
next
  case (Cons r rs)
  show ?case
  proof (cases "r < m")
    case True
    have step: "argmin_loop (Fin m) mi i (map Fin (r # rs)) = argmin_loop (Fin r) i (Suc i) (map Fin rs)"
      using True by simp
    let ?k = "argmin_loop (Fin r) i (Suc i) (map Fin rs)"
    from Cons.IH [of r i "Suc i"] consider
      (a) "?k = i" "\<forall>x\<in>set rs. r \<le> x"
      | (b) "Suc i \<le> ?k" "?k - Suc i < length rs" "rs ! (?k - Suc i) < r"
          "\<forall>j<length rs. rs ! (?k - Suc i) \<le> rs ! j" "\<forall>j<?k - Suc i. rs ! (?k - Suc i) < rs ! j"
      by (auto simp: Let_def)
    then show ?thesis
    proof cases
      case a
      then show ?thesis using True step
        by (auto simp: Let_def nth_Cons split: nat.splits)
    next
      case b
      have kk: "?k - i = Suc (?k - Suc i)" using b(1) by simp
      show ?thesis unfolding Let_def step
        apply (rule disjI2)
        using b True unfolding kk
        by (auto simp: nth_Cons less_Suc_eq_0_disj split: nat.splits)
    qed
  next
    case False
    have step: "argmin_loop (Fin m) mi i (map Fin (r # rs)) = argmin_loop (Fin m) mi (Suc i) (map Fin rs)"
      using False by simp
    let ?k = "argmin_loop (Fin m) mi (Suc i) (map Fin rs)"
    from Cons.IH [of m mi "Suc i"] consider
      (a) "?k = mi" "\<forall>x\<in>set rs. m \<le> x"
      | (b) "Suc i \<le> ?k" "?k - Suc i < length rs" "rs ! (?k - Suc i) < m"
          "\<forall>j<length rs. rs ! (?k - Suc i) \<le> rs ! j" "\<forall>j<?k - Suc i. rs ! (?k - Suc i) < rs ! j"
      by (auto simp: Let_def)
    then show ?thesis
    proof cases
      case a
      then show ?thesis using False step by (auto simp: Let_def)
    next
      case b
      have kk: "?k - i = Suc (?k - Suc i)" using b(1) by simp
      show ?thesis unfolding Let_def step
        apply (rule disjI2)
        using b False unfolding kk
        by (auto simp: nth_Cons less_Suc_eq_0_disj split: nat.splits)
    qed
  qed
qed

lemma argmin_finite:
  assumes "rs \<noteq> []"
  shows "\<exists>k. argmin (map Fin rs) = Inr k \<and> first_least rs k"
proof -
  obtain r rs' where rs: "rs = r # rs'" using assms by (cases rs) auto
  let ?k = "argmin_loop (Fin r) 0 1 (map Fin rs')"
  have am: "argmin (map Fin rs) = Inr ?k" by (simp add: rs argmin_def)
  from argmin_loop_finite [of r 0 1 rs'] consider
      (a) "?k = 0" "\<forall>x\<in>set rs'. r \<le> x"
      | (b) "1 \<le> ?k" "?k - 1 < length rs'" "rs' ! (?k - 1) < r"
          "\<forall>j<length rs'. rs' ! (?k - 1) \<le> rs' ! j" "\<forall>j<?k - 1. rs' ! (?k - 1) < rs' ! j"
      by (auto simp: Let_def)
  then have "first_least rs ?k"
  proof cases
    case a
    then show ?thesis by (auto simp: first_least_def rs nth_Cons split: nat.splits)
  next
    case b
    obtain k' where k': "?k = Suc k'" using b(1) by (cases ?k) auto
    show ?thesis using b unfolding k' 
      by (auto simp: first_least_def rs nth_Cons less_Suc_eq_0_disj split: nat.splits)
  qed
  with am show ?thesis by blast
qed

lemma foldl_fmax_finite: "foldl fmax (Fin x) (map Fin xs) = Fin (Max (set (x # xs)))"
proof (induction xs arbitrary: x)
  case Nil
  then show ?case by simp
next
  case (Cons y ys)
  have "fmax (Fin x) (Fin y) = Fin (max x y)" by (simp add: fmax_def max_def)
  then have "foldl fmax (Fin x) (map Fin (y # ys)) = Fin (Max (set (max x y # ys)))"
    using Cons.IH [of "max x y"] by simp
  also have "Max (set (max x y # ys)) = Max (set (x # y # ys))"
    by (cases "ys = []") (simp_all add: max.assoc)
  finally show ?case .
qed

lemma nanmax_finite: "rs \<noteq> [] \<Longrightarrow> nanmax (map Fin rs) = Inr (Fin (Max (set rs)))"
  by (cases rs) (simp_all add: nanmax_def foldl_fmax_finite del: set_simps Max_insert)

lemma find_nearest_finite:
  assumes "rs \<noteq> []"
  shows "\<exists>k. find_nearest exact_numerics (map Fin rs) (Fin v) = Inr k \<and> first_least (map (\<lambda>r. \<bar>r - v\<bar>) rs) k"
proof -
  have eq: "map (\<lambda>a. fl_abs (np_sub exact_numerics a (Fin v))) (map Fin rs)
      = map Fin (map (\<lambda>r. \<bar>r - v\<bar>) rs)"
    by (simp add: fl_sub_def)
  have "map (\<lambda>r. \<bar>r - v\<bar>) rs \<noteq> []" using assms by simp
  from argmin_finite [OF this] show ?thesis
    unfolding find_nearest_def eq .
qed

lemma nan_to_zero_no_inf:
  assumes "\<forall>x\<in>set xs. x \<noteq> PInf \<and> x \<noteq> NInf"
  shows "nan_to_zero xs = map Fin (map fin_val xs)"
proof -
  have "(if isnan x then Fin 0 else x) = Fin (fin_val x)" if "x \<in> set xs" for x
  proof -
    from that assms have "x \<noteq> PInf" "x \<noteq> NInf" by auto
    then show ?thesis by (cases x) auto
  qed
  then show ?thesis by (simp add: nan_to_zero_def)
qed

lemma e_folding_search_finite:
  assumes ne: "rs \<noteq> []"
  shows "\<exists>x_max k. e_folding_search exact_numerics (map Fin rs) = Inr (int (x_max + k) - int x_max) \<and>
           first_least (map (\<lambda>r. \<bar>r - Max (set rs)\<bar>) rs) x_max \<and>
           first_least (map (\<lambda>r. \<bar>r - Max (set rs) / exp 1\<bar>) (drop x_max rs)) k"
proof -
  let ?m = "Max (set rs)"
  obtain x_max where x1: "find_nearest exact_numerics (map Fin rs) (Fin ?m) = Inr x_max"
    and x2: "first_least (map (\<lambda>r. \<bar>r - ?m\<bar>) rs) x_max"
    using find_nearest_finite [OF ne] by blast
  have "x_max < length rs" using x2 by (simp add: first_least_def)
  then have ne': "drop x_max rs \<noteq> []" by simp
  have dv: "np_div exact_numerics (Fin ?m) (Fin (math_e exact_numerics)) = Fin (?m / exp 1)"
    by simp
  obtain k where k1: "find_nearest exact_numerics (map Fin (drop x_max rs)) (Fin (?m / exp 1)) = Inr k"
    and k2: "first_least (map (\<lambda>r. \<bar>r - ?m / exp 1\<bar>) (drop x_max rs)) k"
    using find_nearest_finite [OF ne'] by blast
  have "e_folding_search exact_numerics (map Fin rs) = Inr (int (x_max + k) - int x_max)"
    unfolding e_folding_search_def Let_def
    by (simp add: nanmax_finite [OF ne] x1 dv k1 drop_map del: fl_div.simps exact_sel)
  with x2 k2 show ?thesis by blast
qed

lemma e_folding_time_whole: "e_folding_time nm data = e_folding_whole nm (drop 20 data)"
  by (simp add: e_folding_time_def e_folding_whole_def)

lemma first_least_map:
  "first_least (map f xs) k \<longleftrightarrow>
     k < length xs \<and> (\<forall>j<length xs. f (xs ! k) \<le> f (xs ! j)) \<and> (\<forall>j<k. f (xs ! k) < f (xs ! j))"
  unfolding first_least_def by auto

lemma first_least_max:
  assumes "rs \<noteq> []" and "first_least (map (\<lambda>r. \<bar>r - Max (set rs)\<bar>) rs) k"
  shows "k < length rs \<and> rs ! k = Max (set rs) \<and> (\<forall>i<k. rs ! i < Max (set rs))"
proof -
  let ?m = "Max (set rs)"
  have k: "k < length rs" using assms(2) by (simp add: first_least_def)
  have "?m \<in> set rs" using assms(1) by simp
  then obtain i where i: "i < length rs" "rs ! i = ?m" by (auto simp: in_set_conv_nth)
  have le: "\<And>j. j < length rs \<Longrightarrow> rs ! j \<le> ?m" by simp
  have "\<bar>rs ! k - ?m\<bar> \<le> \<bar>rs ! i - ?m\<bar>"
    using assms(2) i(1) k by (auto simp: first_least_def)
  then have eq: "rs ! k = ?m" using i(2) by simp
  have "rs ! j < ?m" if "j < k" for j
  proof -
    have "j < length rs" using that k by simp
    moreover have "\<bar>rs ! k - ?m\<bar> < \<bar>rs ! j - ?m\<bar>"
      using assms(2) that k by (auto simp: first_least_def)
    ultimately show ?thesis using eq le [of j] by simp
  qed
  with k eq show ?thesis by blast
qed

lemma e_folding_search_nearest:
  assumes "rs \<noteq> []"
  shows "\<exists>r. e_folding_search exact_numerics (map Fin rs) = Inr r \<and> nearest_search rs r"
proof -
  let ?m = "Max (set rs)"
  let ?v = "?m / exp 1"
  obtain x_max k where r: "e_folding_search exact_numerics (map Fin rs) = Inr (int (x_max + k) - int x_max)"
    and x: "first_least (map (\<lambda>r. \<bar>r - ?m\<bar>) rs) x_max"
    and k: "first_least (map (\<lambda>r. \<bar>r - ?v\<bar>) (drop x_max rs)) k"
    using e_folding_search_finite [OF assms] by blast
  from first_least_max [OF assms x]
  have x1: "x_max < length rs" and x2: "rs ! x_max = ?m" and x3: "\<forall>i<x_max. rs ! i < ?m"
    by auto
  from k have kk: "k < length rs - x_max"
    "\<And>j. j < length rs - x_max \<Longrightarrow> \<bar>rs ! (x_max + k) - ?v\<bar> \<le> \<bar>rs ! (x_max + j) - ?v\<bar>"
    "\<And>j. j < k \<Longrightarrow> \<bar>rs ! (x_max + k) - ?v\<bar> < \<bar>rs ! (x_max + j) - ?v\<bar>"
    unfolding first_least_map using x1 by auto
  have k1: "x_max + k < length rs" using kk(1) by simp
  have k2: "\<bar>rs ! (x_max + k) - ?v\<bar> \<le> \<bar>rs ! j - ?v\<bar>" if "j < length rs" "x_max \<le> j" for j
    using kk(2) [of "j - x_max"] that by simp
  have k3: "\<bar>rs ! (x_max + k) - ?v\<bar> < \<bar>rs ! j - ?v\<bar>" if "j < x_max + k" "x_max \<le> j" for j
    using kk(3) [of "j - x_max"] that by simp
  have "nearest_search rs (int (x_max + k) - int x_max)"
    unfolding nearest_search_def
    apply (rule exI [of _ x_max], rule exI [of _ "x_max + k"])
    using x1 x2 x3 k1 k2 k3 by simp
  with r show ?thesis by blast
qed

lemma nearest_search_unique:
  assumes "nearest_search seg r" and "nearest_search seg r'"
  shows "r = r'"
proof -
  let ?m = "Max (set seg)"
  let ?d = "\<lambda>i. \<bar>seg ! i - ?m / exp 1\<bar>"
  from assms(1) obtain a b where a: "r = int b - int a" "a < length seg" "seg ! a = ?m"
    "\<forall>i<a. seg ! i < ?m" "a \<le> b" "b < length seg"
    "\<forall>j<length seg. a \<le> j \<longrightarrow> ?d b \<le> ?d j" "\<forall>j<b. a \<le> j \<longrightarrow> ?d b < ?d j"
    unfolding nearest_search_def by blast
  from assms(2) obtain a' b' where a': "r' = int b' - int a'" "a' < length seg" "seg ! a' = ?m"
    "\<forall>i<a'. seg ! i < ?m" "a' \<le> b'" "b' < length seg"
    "\<forall>j<length seg. a' \<le> j \<longrightarrow> ?d b' \<le> ?d j" "\<forall>j<b'. a' \<le> j \<longrightarrow> ?d b' < ?d j"
    unfolding nearest_search_def by blast
  have "\<not> a < a'" using a(3) a'(4) by auto
  moreover have "\<not> a' < a" using a'(3) a(4) by auto
  ultimately have aa: "a = a'" by simp
  have "\<not> b < b'" using a(5,6,7) a'(5,6,8) aa by (metis not_le)
  moreover have "\<not> b' < b" using a(5,6,8) a'(5,6,7) aa by (metis not_le)
  ultimately have "b = b'" by simp
  with aa a(1) a'(1) show ?thesis by simp
qed

lemma exp_one_gt_two: "2 < exp (1::real)"
proof -
  have "1 + (1/2::real) \<le> exp (1/2)" by (rule exp_ge_add_one_self)
  then have "(3/2::real)^2 \<le> (exp (1/2))^2" by (intro power_mono) auto
  also have "(exp (1/2::real))^2 = exp 1" by (simp add: exp_double [symmetric])
  finally show ?thesis by (simp add: power2_eq_square)
qed

lemma e_folding_whole_nearest:
  assumes "segment \<noteq> []" and "\<forall>x\<in>set segment. x \<noteq> PInf \<and> x \<noteq> NInf"
  shows "\<exists>r. e_folding_whole exact_numerics segment = Inr r
            \<and> nearest_search (map fin_val segment) r"
proof -
  have "map fin_val segment \<noteq> []" using assms(1) by simp
  from e_folding_search_nearest [OF this] show ?thesis
    by (simp add: e_folding_whole_def nan_to_zero_no_inf [OF assms(2)])
qed

subsection \<open>The search, whatever the rounding\<close>

lemma fl_ge_refl: "\<not> isnan a \<Longrightarrow> fl_ge a a"
  by (cases a) simp_all

lemma fl_ge_total: "\<not> isnan a \<Longrightarrow> \<not> isnan b \<Longrightarrow> fl_ge a b \<or> fl_ge b a"
  by (cases a; cases b) auto

lemma fl_ge_trans: "fl_ge a b \<Longrightarrow> fl_ge b c \<Longrightarrow> fl_ge a c"
  by (cases a; cases b; cases c) auto

lemma fl_ge_not_nan: "fl_ge a b \<Longrightarrow> \<not> isnan a \<and> \<not> isnan b"
  by (cases a; cases b) auto

lemma argmin_loop_nan:
  assumes "\<not> isnan mp" and "list_ex isnan xs"
  shows "i \<le> argmin_loop mp mi i xs \<and> argmin_loop mp mi i xs - i < length xs
         \<and> isnan (xs ! (argmin_loop mp mi i xs - i))
         \<and> (\<forall>j<argmin_loop mp mi i xs - i. \<not> isnan (xs ! j))"
  using assms
proof (induction xs arbitrary: mp mi i)
  case Nil
  then show ?case by simp
next
  case (Cons x xs)
  show ?case
  proof (cases "isnan x")
    case True
    then have "\<not> fl_ge x mp" by (cases x) simp_all
    then show ?thesis using True by simp
  next
    case False
    then have ex: "list_ex isnan xs" using Cons.prems(2) by simp
    show ?thesis
    proof (cases "fl_ge x mp")
      case True
      let ?k = "argmin_loop mp mi (Suc i) xs"
      have step: "argmin_loop mp mi i (x # xs) = ?k" using True by simp
      from Cons.IH [where mp = mp and mi = mi and i = "Suc i", OF Cons.prems(1) ex]
      have ih: "Suc i \<le> ?k" "?k - Suc i < length xs" "isnan (xs ! (?k - Suc i))"
        "\<forall>j<?k - Suc i. \<not> isnan (xs ! j)" by auto
      have kk: "?k - i = Suc (?k - Suc i)" using ih(1) by simp
      show ?thesis unfolding step kk using ih False
        by (auto simp: nth_Cons less_Suc_eq_0_disj split: nat.splits)
    next
      case ge: False
      let ?k = "argmin_loop x i (Suc i) xs"
      have step: "argmin_loop mp mi i (x # xs) = ?k" using ge False by simp
      from Cons.IH [where mp = x and mi = i and i = "Suc i", OF False ex]
      have ih: "Suc i \<le> ?k" "?k - Suc i < length xs" "isnan (xs ! (?k - Suc i))"
        "\<forall>j<?k - Suc i. \<not> isnan (xs ! j)" by auto
      have kk: "?k - i = Suc (?k - Suc i)" using ih(1) by simp
      show ?thesis unfolding step kk using ih False
        by (auto simp: nth_Cons less_Suc_eq_0_disj split: nat.splits)
    qed
  qed
qed

lemma argmin_loop_least:
  assumes "\<not> isnan mp" and "\<not> list_ex isnan xs"
  shows "(argmin_loop mp mi i xs = mi \<and> (\<forall>x\<in>set xs. fl_ge x mp)) \<or>
     (i \<le> argmin_loop mp mi i xs \<and> argmin_loop mp mi i xs - i < length xs
      \<and> \<not> fl_ge (xs ! (argmin_loop mp mi i xs - i)) mp
      \<and> (\<forall>j<length xs. fl_ge (xs ! j) (xs ! (argmin_loop mp mi i xs - i)))
      \<and> (\<forall>j<argmin_loop mp mi i xs - i. \<not> fl_ge (xs ! (argmin_loop mp mi i xs - i)) (xs ! j)))"
  using assms
proof (induction xs arbitrary: mp mi i)
  case Nil
  then show ?case by simp
next
  case (Cons x xs)
  have nx: "\<not> isnan x" and nxs: "\<not> list_ex isnan xs" using Cons.prems(2) by simp_all
  have nn: "\<And>j. j < length xs \<Longrightarrow> \<not> isnan (xs ! j)"
    using nxs by (auto simp: list_ex_iff)
  show ?case
  proof (cases "fl_ge x mp")
    case True
    let ?k = "argmin_loop mp mi (Suc i) xs"
    have step: "argmin_loop mp mi i (x # xs) = ?k" using True by simp
    from Cons.IH [where mp = mp and mi = mi and i = "Suc i", OF Cons.prems(1) nxs] consider
      (a) "?k = mi" "\<forall>y\<in>set xs. fl_ge y mp"
      | (b) "Suc i \<le> ?k" "?k - Suc i < length xs" "\<not> fl_ge (xs ! (?k - Suc i)) mp"
          "\<forall>j<length xs. fl_ge (xs ! j) (xs ! (?k - Suc i))"
          "\<forall>j<?k - Suc i. \<not> fl_ge (xs ! (?k - Suc i)) (xs ! j)"
      by blast
    then show ?thesis
    proof cases
      case a
      then show ?thesis unfolding step using True by simp
    next
      case b
      let ?y = "xs ! (?k - Suc i)"
      have kk: "?k - i = Suc (?k - Suc i)" using b(1) by simp
      have ny: "\<not> isnan ?y" using nn b(2) by simp
      have "fl_ge mp ?y" using fl_ge_total [OF Cons.prems(1) ny] b(3) by blast
      with True have xy: "fl_ge x ?y" by (rule fl_ge_trans)
      have yx: "\<not> fl_ge ?y x"
      proof
        assume "fl_ge ?y x"
        then have "fl_ge ?y mp" using True by (rule fl_ge_trans)
        with b(3) show False by simp
      qed
      show ?thesis unfolding step kk
        apply (rule disjI2)
        using b xy yx by (auto simp: nth_Cons less_Suc_eq_0_disj split: nat.splits)
    qed
  next
    case False
    let ?k = "argmin_loop x i (Suc i) xs"
    have step: "argmin_loop mp mi i (x # xs) = ?k" using False nx by simp
    from Cons.IH [where mp = x and mi = i and i = "Suc i", OF nx nxs] consider
      (a) "?k = i" "\<forall>y\<in>set xs. fl_ge y x"
      | (b) "Suc i \<le> ?k" "?k - Suc i < length xs" "\<not> fl_ge (xs ! (?k - Suc i)) x"
          "\<forall>j<length xs. fl_ge (xs ! j) (xs ! (?k - Suc i))"
          "\<forall>j<?k - Suc i. \<not> fl_ge (xs ! (?k - Suc i)) (xs ! j)"
      by blast
    then show ?thesis
    proof cases
      case a
      show ?thesis unfolding step a(1)
        apply (rule disjI2)
        using a(2) False fl_ge_refl [OF nx] by (auto simp: nth_Cons split: nat.splits)
    next
      case b
      let ?y = "xs ! (?k - Suc i)"
      have kk: "?k - i = Suc (?k - Suc i)" using b(1) by simp
      have ny: "\<not> isnan ?y" using nn b(2) by simp
      have xy: "fl_ge x ?y" using fl_ge_total [OF nx ny] b(3) by blast
      have ymp: "\<not> fl_ge ?y mp"
      proof
        assume "fl_ge ?y mp"
        then have "fl_ge x mp" using xy fl_ge_trans by blast
        with False show False by simp
      qed
      show ?thesis unfolding step kk
        apply (rule disjI2)
        using b xy ymp by (auto simp: nth_Cons less_Suc_eq_0_disj split: nat.splits)
    qed
  qed
qed

lemma argmin_first_nearest:
  assumes "ds \<noteq> []"
  shows "\<exists>k. argmin ds = Inr k \<and> first_nearest ds k"
proof -
  obtain d ds' where ds: "ds = d # ds'" using assms by (cases ds) auto
  show ?thesis
  proof (cases "isnan d")
    case True
    then show ?thesis by (simp add: ds argmin_def first_nearest_def)
  next
    case nd: False
    let ?k = "argmin_loop d 0 1 ds'"
    have am: "argmin ds = Inr ?k" using nd by (simp add: ds argmin_def)
    have "first_nearest ds ?k"
    proof (cases "list_ex isnan ds'")
      case True
      from argmin_loop_nan [where mp = d and xs = ds' and mi = 0 and i = 1, OF nd True]
      have k: "1 \<le> ?k" "?k - 1 < length ds'" "isnan (ds' ! (?k - 1))"
        "\<forall>j<?k - 1. \<not> isnan (ds' ! j)" by auto
      obtain k' where k': "?k = Suc k'" using k(1) by (cases ?k) auto
      show ?thesis using k True nd unfolding k' ds first_nearest_def
        by (auto simp: nth_Cons less_Suc_eq_0_disj split: nat.splits)
    next
      case False
      then have none: "\<not> list_ex isnan ds" using nd by (simp add: ds)
      from argmin_loop_least [where mp = d and xs = ds' and mi = 0 and i = 1, OF nd False] consider
        (a) "?k = 0" "\<forall>x\<in>set ds'. fl_ge x d"
        | (b) "1 \<le> ?k" "?k - 1 < length ds'" "\<not> fl_ge (ds' ! (?k - 1)) d"
          "\<forall>j<length ds'. fl_ge (ds' ! j) (ds' ! (?k - 1))"
          "\<forall>j<?k - 1. \<not> fl_ge (ds' ! (?k - 1)) (ds' ! j)"
        by auto
      then show ?thesis
      proof cases
        case a
        show ?thesis unfolding first_nearest_def a(1) using none a(2) fl_ge_refl [OF nd]
          by (auto simp: ds nth_Cons split: nat.splits)
      next
        case b
        obtain k' where k': "?k = Suc k'" using b(1) by (cases ?k) auto
        have nn: "\<not> isnan (ds' ! k')" using False b(2) k' by (auto simp: list_ex_iff)
        have "fl_ge d (ds' ! k')" using fl_ge_total [OF nd nn] b(3) k' by auto
        then show ?thesis using b none unfolding k' first_nearest_def
          by (auto simp: ds nth_Cons less_Suc_eq_0_disj split: nat.splits)
      qed
    qed
    with am show ?thesis by blast
  qed
qed

lemma foldl_fmax_max:
  assumes "\<not> isnan x" and "\<not> list_ex isnan xs"
  shows "foldl fmax x xs \<in> set (x # xs) \<and> (\<forall>a\<in>set (x # xs). fl_ge (foldl fmax x xs) a)"
  using assms
proof (induction xs arbitrary: x)
  case Nil
  then show ?case by (simp add: fl_ge_refl)
next
  case (Cons y ys)
  have ny: "\<not> isnan y" and nys: "\<not> list_ex isnan ys" using Cons.prems(2) by simp_all
  let ?z = "fmax x y"
  have z: "?z = (if fl_ge x y then x else y)" using Cons.prems(1) ny by (simp add: fmax_def)
  have nz: "\<not> isnan ?z" using Cons.prems(1) ny by (simp add: z)
  have zx: "fl_ge ?z x" and zy: "fl_ge ?z y"
    using fl_ge_total [OF Cons.prems(1) ny] fl_ge_refl [OF Cons.prems(1)] fl_ge_refl [OF ny]
    by (auto simp: z)
  from Cons.IH [OF nz nys]
  have m: "foldl fmax ?z ys \<in> set (?z # ys)" "\<forall>a\<in>set (?z # ys). fl_ge (foldl fmax ?z ys) a"
    by blast+
  have mz: "fl_ge (foldl fmax ?z ys) ?z" using m(2) by simp
  have "foldl fmax ?z ys \<in> set (x # y # ys)" using m(1) by (auto simp: z)
  moreover have "fl_ge (foldl fmax ?z ys) x" using mz zx by (rule fl_ge_trans)
  moreover have "fl_ge (foldl fmax ?z ys) y" using mz zy by (rule fl_ge_trans)
  ultimately show ?case using m(2) by simp
qed

lemma nan_to_zero_no_nan: "\<not> list_ex isnan (nan_to_zero xs)"
  by (auto simp: nan_to_zero_def list_ex_iff)

lemma nanmax_max:
  assumes "dc \<noteq> []" and "\<not> list_ex isnan dc"
  shows "\<exists>m. nanmax dc = Inr m \<and> m \<in> set dc \<and> (\<forall>a\<in>set dc. fl_ge m a)"
proof -
  obtain x xs where dc: "dc = x # xs" using assms(1) by (cases dc) auto
  have "\<not> isnan x" "\<not> list_ex isnan xs" using assms(2) by (simp_all add: dc)
  from foldl_fmax_max [OF this] show ?thesis by (simp add: nanmax_def dc)
qed

lemma first_nearest_length: "first_nearest ds k \<Longrightarrow> k < length ds"
  by (simp add: first_nearest_def)

lemma find_nearest_first:
  assumes "array \<noteq> []"
  shows "\<exists>k. find_nearest nm array v = Inr k
            \<and> first_nearest (map (\<lambda>a. fl_abs (np_sub nm a v)) array) k"
proof -
  have "map (\<lambda>a. fl_abs (np_sub nm a v)) array \<noteq> []" using assms by simp
  from argmin_first_nearest [OF this] show ?thesis unfolding find_nearest_def .
qed

lemma e_folding_search_first:
  assumes "dc \<noteq> []" and "\<not> list_ex isnan dc"
  shows "\<exists>m x_max k. nanmax dc = Inr m \<and> m \<in> set dc \<and> (\<forall>a\<in>set dc. fl_ge m a)
           \<and> first_nearest (map (\<lambda>a. fl_abs (np_sub nm a m)) dc) x_max
           \<and> x_max + k < length dc
           \<and> first_nearest
                (map (\<lambda>a. fl_abs (np_sub nm a (np_div nm m (Fin (math_e nm)))))
                   (drop x_max dc)) k
           \<and> e_folding_search nm dc = Inr (int (x_max + k) - int x_max)"
proof -
  obtain m where m: "nanmax dc = Inr m" "m \<in> set dc" "\<forall>a\<in>set dc. fl_ge m a"
    using nanmax_max [OF assms] by blast
  obtain x_max where x: "find_nearest nm dc m = Inr x_max"
    "first_nearest (map (\<lambda>a. fl_abs (np_sub nm a m)) dc) x_max"
    using find_nearest_first [OF assms(1)] by blast
  have xl: "x_max < length dc" using first_nearest_length [OF x(2)] by simp
  then have ne: "drop x_max dc \<noteq> []" by simp
  let ?v = "np_div nm m (Fin (math_e nm))"
  obtain k where k: "find_nearest nm (drop x_max dc) ?v = Inr k"
    "first_nearest (map (\<lambda>a. fl_abs (np_sub nm a ?v)) (drop x_max dc)) k"
    using find_nearest_first [OF ne] by blast
  have kl: "x_max + k < length dc" using first_nearest_length [OF k(2)] by simp
  have "e_folding_search nm dc = Inr (int (x_max + k) - int x_max)"
    unfolding e_folding_search_def by (simp add: m(1) x(1) k(1) Let_def)
  with m x(2) k(2) kl show ?thesis by blast
qed

lemma fl_abs_zero: "fl_abs z = Fin 0 \<longleftrightarrow> z = Fin 0"
  by (cases z) simp_all

lemma fl_ge_zero_abs: "fl_ge (Fin 0) (fl_abs z) \<Longrightarrow> z = Fin 0"
  by (cases z) simp_all

lemma fl_abs_nan: "isnan (fl_abs z) = isnan z"
  by (cases z) simp_all

lemma first_nearest_maximum:
  assumes m: "m \<in> set dc"
    and h: "\<forall>a\<in>set dc. \<not> isnan (np_sub nm a m) \<and> (np_sub nm a m = Fin 0 \<longleftrightarrow> a = m)"
    and f: "first_nearest (map (\<lambda>a. fl_abs (np_sub nm a m)) dc) x_max"
  shows "dc ! x_max = m \<and> (\<forall>i<x_max. dc ! i \<noteq> m)"
proof -
  let ?D = "map (\<lambda>a. fl_abs (np_sub nm a m)) dc"
  have none: "\<not> list_ex isnan ?D" using h by (auto simp: list_ex_iff fl_abs_nan)
  have xl: "x_max < length dc" using first_nearest_length [OF f] by simp
  from f have "(\<forall>j<length ?D. fl_ge (?D ! j) (?D ! x_max))
      \<and> (\<forall>j<x_max. \<not> fl_ge (?D ! x_max) (?D ! j))"
    unfolding first_nearest_def by (simp only: none if_False) blast
  then have least: "\<forall>j<length ?D. fl_ge (?D ! j) (?D ! x_max)"
    and first: "\<forall>j<x_max. \<not> fl_ge (?D ! x_max) (?D ! j)"
    by blast+
  from m obtain p where p: "p < length dc" "dc ! p = m" by (auto simp: in_set_conv_nth)
  have "np_sub nm m m = Fin 0" using h m by blast
  then have "?D ! p = Fin 0" using p by simp
  then have "fl_ge (Fin 0) (?D ! x_max)" using least p(1) by (metis length_map)
  then have "fl_ge (Fin 0) (fl_abs (np_sub nm (dc ! x_max) m))" using xl by simp
  then have "np_sub nm (dc ! x_max) m = Fin 0" by (rule fl_ge_zero_abs)
  then have eq: "dc ! x_max = m" using h xl by (meson nth_mem)
  have zero: "?D ! x_max = Fin 0" using xl eq \<open>np_sub nm m m = Fin 0\<close> by simp
  have "dc ! i \<noteq> m" if "i < x_max" for i
  proof
    assume "dc ! i = m"
    then have "?D ! i = Fin 0" using that xl \<open>np_sub nm m m = Fin 0\<close> by simp
    then have "fl_ge (?D ! x_max) (?D ! i)" unfolding zero by simp
    with first that show False by blast
  qed
  with eq show ?thesis by blast
qed

lemma e_folding_time_first:
  assumes "20 < length data"
  shows "let dc = nan_to_zero (drop 20 data) in
     \<exists>m x_max x_e.
        nanmax dc = Inr m \<and> m \<in> set dc \<and> (\<forall>a\<in>set dc. fl_ge m a)
        \<and> first_nearest (map (\<lambda>a. fl_abs (np_sub nm a m)) dc) x_max
        \<and> x_max \<le> x_e \<and> x_e < length dc
        \<and> first_nearest
             (map (\<lambda>a. fl_abs (np_sub nm a (np_div nm m (Fin (math_e nm)))))
                (drop x_max dc)) (x_e - x_max)
        \<and> e_folding_time nm data = Inr (int x_e - int x_max)
        \<and> ((\<forall>a\<in>set dc. \<not> isnan (np_sub nm a m) \<and> (np_sub nm a m = Fin 0 \<longleftrightarrow> a = m))
             \<longrightarrow> dc ! x_max = m \<and> (\<forall>i<x_max. dc ! i \<noteq> m))"
proof -
  let ?dc = "nan_to_zero (drop 20 data)"
  have ne: "?dc \<noteq> []" using assms by (simp add: nan_to_zero_def)
  from e_folding_search_first [OF ne nan_to_zero_no_nan, of nm]
  obtain m x_max k where r: "nanmax ?dc = Inr m" "m \<in> set ?dc" "\<forall>a\<in>set ?dc. fl_ge m a"
    "first_nearest (map (\<lambda>a. fl_abs (np_sub nm a m)) ?dc) x_max"
    "x_max + k < length ?dc"
    "first_nearest (map (\<lambda>a. fl_abs (np_sub nm a (np_div nm m (Fin (math_e nm)))))
                   (drop x_max ?dc)) k"
    "e_folding_search nm ?dc = Inr (int (x_max + k) - int x_max)"
    by blast
  have mx: "(\<forall>a\<in>set ?dc. \<not> isnan (np_sub nm a m) \<and> (np_sub nm a m = Fin 0 \<longleftrightarrow> a = m))
             \<longrightarrow> ?dc ! x_max = m \<and> (\<forall>i<x_max. ?dc ! i \<noteq> m)"
    using first_nearest_maximum [OF r(2) _ r(4)] by blast
  have t: "e_folding_time nm data = Inr (int (x_max + k) - int x_max)"
    using r(7) by (simp add: e_folding_time_def)
  show ?thesis
    unfolding Let_def
    apply (rule exI [of _ m], rule exI [of _ x_max], rule exI [of _ "x_max + k"])
    using r(1-6) t mx by simp
qed

subsection \<open>The search in binary64, on an example\<close>

lemma round_half_even_near:
  assumes "\<bar>y - of_int m\<bar> < 1 / 2"
  shows "round_half_even y = m"
proof (cases "of_int m \<le> y")
  case True
  then have "\<lfloor>y\<rfloor> = m" using assms by (intro floor_unique) auto
  then show ?thesis using assms True by (simp add: round_half_even_def Let_def)
next
  case False
  then have f: "\<lfloor>y\<rfloor> = m - 1" using assms by (intro floor_unique) auto
  have "1 / 2 < y - of_int (m - 1)" using assms False by auto
  then show ?thesis using f by (simp add: round_half_even_def Let_def)
qed

lemma binary64_near:
  fixes k :: nat
  assumes lo: "2 ^ (k + 52) \<le> \<bar>x\<bar>" and hi: "\<bar>x\<bar> < 2 ^ (k + 53)" and k: "k \<le> 900"
    and near: "\<bar>x - of_int m * 2 ^ k\<bar> < 2 ^ k / 2"
  shows "binary64 x = Fin (of_int m * 2 ^ k)"
proof -
  have pos: "0 < \<bar>x\<bar>" using lo by (smt (verit) zero_less_power)
  then have x0: "x \<noteq> 0" by simp
  have p1: "(2::real) powr real_of_int (int (k + 52)) = 2 ^ (k + 52)"
    unfolding of_int_of_nat_eq by (rule powr_realpow) simp
  have "int (k + 52) + 1 = int (k + 53)" by simp
  then have "real_of_int (int (k + 52) + 1) = real (k + 53)" by (simp only: of_int_of_nat_eq)
  then have p2: "(2::real) powr real_of_int (int (k + 52) + 1) = 2 ^ (k + 53)"
    using powr_realpow [of "2::real" "k + 53"] by (simp only:)
  have "2 powr real_of_int (int (k + 52)) \<le> \<bar>x\<bar>
      \<and> \<bar>x\<bar> < 2 powr real_of_int (int (k + 52) + 1)"
    unfolding p1 p2 using lo hi by simp
  then have e: "\<lfloor>log 2 \<bar>x\<bar>\<rfloor> = int (k + 52)"
    using floor_log_eq_powr_iff [of "\<bar>x\<bar>" 2 "int (k + 52)"] pos by simp
  have mx: "max \<lfloor>log 2 \<bar>x\<bar>\<rfloor> (- 1022) = int (k + 52)" unfolding e by simp
  have "real_of_int (int (k + 52)) - 52 = real k" by simp
  then have ulp: "2 powr (real_of_int (int (k + 52)) - 52) = (2::real) ^ k"
    using powr_realpow [of "2::real" k] by simp
  have "\<bar>x / 2 ^ k - of_int m\<bar> = \<bar>x - of_int m * 2 ^ k\<bar> / 2 ^ k"
    by (simp add: field_simps abs_divide)
  also have "\<dots> < (2 ^ k / 2) / 2 ^ k" using near by (intro divide_strict_right_mono) simp_all
  finally have "\<bar>x / 2 ^ k - of_int m\<bar> < 1 / 2" by simp
  then have r: "round_half_even (x / 2 ^ k) = m" by (rule round_half_even_near)
  have "\<bar>of_int m * 2 ^ k\<bar> \<le> \<bar>x\<bar> + \<bar>x - of_int m * 2 ^ k\<bar>" by linarith
  also have "\<dots> < 2 ^ (k + 53) + 2 ^ k / 2" using hi near by linarith
  also have "\<dots> \<le> 2 ^ (k + 53) + (2::real) ^ (k + 53)"
  proof -
    have "(2::real) ^ k \<le> 2 ^ (k + 53)" by (intro power_increasing) simp_all
    moreover have "(2::real) ^ k / 2 \<le> 2 ^ k" by simp
    ultimately show ?thesis by linarith
  qed
  also have "\<dots> = 2 ^ (k + 54)"
  proof -
    have "k + 54 = Suc (k + 53)" by simp
    then show ?thesis by (simp only: power_Suc)
  qed
  also have "\<dots> \<le> (2::real) ^ 1024" using k by (intro power_increasing) simp_all
  finally have fin: "\<not> 2 ^ 1024 \<le> \<bar>of_int m * (2::real) ^ k\<bar>" by simp
  show ?thesis
    unfolding binary64_def Let_def mx ulp r using x0 fin by (simp only: if_False)
qed

lemma binary64_zero: "binary64 0 = Fin 0"
  by (simp add: binary64_def)

lemma binary64_c2_a: "binary64 (- 36787944117144234) = Fin (- 36787944117144232)"
  using binary64_near [of 3 "- 36787944117144234" "- 4598493014643029"] by simp

lemma binary64_c2_b: "binary64 (- 36787944117144233) = Fin (- 36787944117144232)"
  using binary64_near [of 3 "- 36787944117144233" "- 4598493014643029"] by simp

lemma binary64_c2_c: "binary64 63212055882855768 = Fin 63212055882855768"
  using binary64_near [of 3 "63212055882855768" "7901506985356971"] by simp

lemma binary64_c2_d: "binary64 (- 100000000000000002) = Fin (- 100000000000000000)"
  using binary64_near [of 4 "- 100000000000000002" "- 6250000000000000"] by simp

lemma binary64_c2_e: "binary64 (- 100000000000000001) = Fin (- 100000000000000000)"
  using binary64_near [of 4 "- 100000000000000001" "- 6250000000000000"] by simp

lemma binary64_c2_f: "binary64 (100000000000000000 / (6121026514868073 / 2 ^ 51)) = Fin 36787944117144232"
  using binary64_near [of 3 "100000000000000000 / (6121026514868073 / 2 ^ 51)" "4598493014643029"]
  by (simp add: field_simps)

lemma binary64_sel:
  "np_sub binary64_numerics = (\<lambda>a b. round_fl (fl_sub a b))"
  "np_div binary64_numerics = (\<lambda>a b. round_fl (fl_div a b))"
  "math_e binary64_numerics = 6121026514868073 / 2 ^ 51"
  by (simp_all add: binary64_numerics_def)

lemma c2_max_over_e:
  "np_div binary64_numerics (Fin 100000000000000000) (Fin (math_e binary64_numerics))
     = Fin 36787944117144232"
proof -
  have "fl_div (Fin 100000000000000000) (Fin (6121026514868073 / 2 ^ 51))
      = Fin (100000000000000000 / (6121026514868073 / 2 ^ 51))"
    by simp
  then show ?thesis unfolding binary64_sel round_fl_def by (simp only: fl.case binary64_c2_f)
qed

lemma c2_distances_max:
  "map (\<lambda>a. fl_abs (np_sub binary64_numerics a (Fin 100000000000000000)))
     [Fin 100000000000000000, Fin (- 2), Fin (- 1)]
   = [Fin 0, Fin 100000000000000000, Fin 100000000000000000]"
  by (simp add: binary64_sel round_fl_def fl_sub_def binary64_zero binary64_c2_d binary64_c2_e)

lemma c2_distances_e:
  "map (\<lambda>a. fl_abs (np_sub binary64_numerics a (Fin 36787944117144232)))
     [Fin 100000000000000000, Fin (- 2), Fin (- 1)]
   = [Fin 63212055882855768, Fin 36787944117144232, Fin 36787944117144232]"
  by (simp add: binary64_sel round_fl_def fl_sub_def binary64_c2_a binary64_c2_b binary64_c2_c)

lemma c2_copy: "nan_to_zero (drop 20 c2_data) = [Fin 100000000000000000, Fin (- 2), Fin (- 1)]"
  by (simp add: c2_data_def nan_to_zero_def)

lemma c2_result: "e_folding_time binary64_numerics c2_data = Inr 1"
proof -
  let ?dc = "[Fin 100000000000000000, Fin (- 2), Fin (- 1)]"
  have m: "nanmax ?dc = Inr (Fin 100000000000000000)" by (simp add: nanmax_def fmax_def)
  have x: "find_nearest binary64_numerics ?dc (Fin 100000000000000000) = Inr 0"
    unfolding find_nearest_def c2_distances_max by (simp add: argmin_def)
  have k: "find_nearest binary64_numerics (drop 0 ?dc) (Fin 36787944117144232) = Inr 1"
    unfolding find_nearest_def drop_0 c2_distances_e by (simp add: argmin_def)
  show ?thesis
    unfolding e_folding_time_def Let_def c2_copy e_folding_search_def m
    by (simp only: sum.case x c2_max_over_e k) simp
qed

lemma c2_nearer: "\<bar>- 1 - 36787944117144232\<bar> < \<bar>- 2 - (36787944117144232::real)\<bar>"
  by simp

subsection \<open>The synthetic decay curve\<close>

lemma decay_pos: "0 < decay t"
  by (simp add: decay_def)

lemma decay_le_ten: "decay t \<le> 10"
  by (simp add: decay_def)

lemma decay_Suc: "decay (Suc t) = decay t * exp (- (1 / 5))"
proof -
  have "- (real (Suc t) / 5) = - (real t / 5) + - (1 / 5)" by (simp add: field_simps)
  then show ?thesis unfolding decay_def by (simp only: exp_add)
qed

lemma decay_mono: "t < u \<Longrightarrow> decay u < decay t"
  by (simp add: decay_def)

lemma decay_mono_le: "t \<le> u \<Longrightarrow> decay u \<le> decay t"
  by (simp add: decay_def)

lemma exp_fifth: "exp (- (1 / 5 :: real)) \<le> 5 / 6"
proof -
  have "1 + (1 / 5 :: real) \<le> exp (1 / 5)" by (rule exp_ge_add_one_self)
  then have "1 / exp (1 / 5 :: real) \<le> 1 / (6 / 5)"
    by (intro divide_left_mono) simp_all
  then show ?thesis by (simp add: exp_minus field_simps)
qed

lemma decay_step: "decay t / 6 \<le> decay t - decay (Suc t)"
proof -
  have "decay t * exp (- (1 / 5)) \<le> decay t * (5 / 6)"
    using exp_fifth decay_pos [of t] by (intro mult_left_mono) simp_all
  then show ?thesis unfolding decay_Suc by simp
qed

lemma decay_nat: "decay (5 * n) = 10 / exp 1 ^ n"
proof -
  have "exp (- real n) = 1 / exp 1 ^ n"
    by (simp add: exp_minus exp_of_nat_mult [symmetric] field_simps)
  then show ?thesis by (simp add: decay_def)
qed

lemma decay_20: "10 / 81 \<le> decay 20"
proof -
  have "exp (1::real) ^ 4 \<le> 3 ^ 4" by (intro power_mono exp_le) simp
  then have "10 / 3 ^ 4 \<le> 10 / exp (1::real) ^ 4" by (intro divide_left_mono) simp_all
  then show ?thesis using decay_nat [of 4] by simp
qed

lemma decay_25: "10 / 243 \<le> decay 25"
proof -
  have "exp (1::real) ^ 5 \<le> 3 ^ 5" by (intro power_mono exp_le) simp
  then have "10 / 3 ^ 5 \<le> 10 / exp (1::real) ^ 5" by (intro divide_left_mono) simp_all
  then show ?thesis using decay_nat [of 5] by simp
qed

lemma decay_25_20: "decay 25 = decay 20 / exp 1"
proof -
  have "exp (1::real) ^ 5 = exp 1 ^ 4 * exp 1" by (simp add: power_numeral_reduce)
  then show ?thesis using decay_nat [of 5] decay_nat [of 4] by simp
qed

lemma decay_gap_max:
  assumes "20 < t"
  shows "10 / 486 \<le> decay 20 - decay t"
proof -
  have "decay t \<le> decay 21" using assms by (intro decay_mono_le) simp
  moreover have "decay 20 / 6 \<le> decay 20 - decay 21" using decay_step [of 20] by simp
  ultimately show ?thesis using decay_20 by simp
qed

lemma decay_gap_e:
  assumes "t \<noteq> 25"
  shows "10 / 1458 \<le> \<bar>decay t - decay 25\<bar>"
proof (cases "t < 25")
  case True
  then have "decay 24 \<le> decay t" by (intro decay_mono_le) simp
  moreover have "decay 24 / 6 \<le> decay 24 - decay 25" using decay_step [of 24] by simp
  moreover have "decay 25 \<le> decay 24" by (intro decay_mono_le) simp
  ultimately show ?thesis using decay_25 by simp
next
  case False
  then have "decay t \<le> decay 26" using assms by (intro decay_mono_le) simp
  moreover have "decay 25 / 6 \<le> decay 25 - decay 26" using decay_step [of 25] by simp
  ultimately show ?thesis using decay_25 by simp
qed

lemma first_nearest_least:
  assumes "first_nearest ds k" and "\<not> list_ex isnan ds" and "j < length ds"
  shows "fl_ge (ds ! j) (ds ! k)"
proof -
  from assms(1) have "(\<forall>j<length ds. fl_ge (ds ! j) (ds ! k))
      \<and> (\<forall>j<k. \<not> fl_ge (ds ! k) (ds ! j))"
    unfolding first_nearest_def by (simp only: assms(2) if_False) blast
  then show ?thesis using assms(3) by blast
qed

lemma e_folding_decay:
  assumes nd: "near_decay (1 / 2000) data" and ac: "accurate (1 / 2000) nm"
  shows "e_folding_time nm data = Inr 5"
proof -
  define c where "c t = fin_val (data ! t)" for t
  have len: "length data = 51" using nd by (simp add: near_decay_def)
  have c: "data ! t = Fin (c t) \<and> \<bar>c t - decay t\<bar> \<le> 1 / 2000" if "t < 51" for t
  proof -
    from nd that obtain v where "data ! t = Fin v" "\<bar>v - decay t\<bar> \<le> 1 / 2000"
      unfolding near_decay_def by blast
    then show ?thesis by (simp add: c_def)
  qed
  have c11: "\<bar>c t\<bar> \<le> 11" if "t < 51" for t
  proof -
    have "\<bar>c t - decay t\<bar> \<le> 1 / 2000" using c [OF that] by blast
    then show ?thesis using decay_pos [of t] decay_le_ten [of t] by linarith
  qed
  let ?dc = "nan_to_zero (drop 20 data)"
  have ldc: "length ?dc = 31" using len by (simp add: nan_to_zero_def)
  have dc: "?dc ! i = Fin (c (20 + i))" if "i < 31" for i
    using that len c [of "20 + i"] by (simp add: nan_to_zero_def)
  have sub: "\<exists>z. np_sub nm (Fin x) (Fin y) = Fin z \<and> \<bar>z - (x - y)\<bar> \<le> 1 / 2000"
    if "\<bar>x\<bar> \<le> 11" "\<bar>y\<bar> \<le> 11" for x y
    using ac that unfolding accurate_def by blast
  have dv: "\<exists>z. np_div nm (Fin x) (Fin (math_e nm)) = Fin z \<and> \<bar>z - x / exp 1\<bar> \<le> 1 / 2000"
    if "\<bar>x\<bar> \<le> 11" for x
    using ac that unfolding accurate_def by blast
  have "20 < length data" using len by simp
  from e_folding_time_first [OF this, of nm, unfolded Let_def]
  obtain m x_max x_e where r: "m \<in> set ?dc" "\<forall>a\<in>set ?dc. fl_ge m a"
    "first_nearest (map (\<lambda>a. fl_abs (np_sub nm a m)) ?dc) x_max"
    "x_max \<le> x_e" "x_e < length ?dc"
    "first_nearest (map (\<lambda>a. fl_abs (np_sub nm a (np_div nm m (Fin (math_e nm)))))
                (drop x_max ?dc)) (x_e - x_max)"
    "e_folding_time nm data = Inr (int x_e - int x_max)"
    by blast
  from r(1) obtain p where p: "p < 31" "m = ?dc ! p" using ldc by (auto simp: in_set_conv_nth)
  have "?dc ! 0 \<in> set ?dc" using ldc by (intro nth_mem) simp
  then have "fl_ge m (?dc ! 0)" using r(2) by blast
  then have cp: "c 20 \<le> c (20 + p)" using p dc [of p] dc [of 0] by simp
  have p0: "p = 0"
  proof (rule ccontr)
    assume "p \<noteq> 0"
    then have "10 / 486 \<le> decay 20 - decay (20 + p)" by (intro decay_gap_max) simp
    moreover have "\<bar>c 20 - decay 20\<bar> \<le> 1 / 2000" using c [of 20] by simp
    moreover have "\<bar>c (20 + p) - decay (20 + p)\<bar> \<le> 1 / 2000" using c [of "20 + p"] p by simp
    ultimately show False using cp by linarith
  qed
  have m: "m = Fin (c 20)" using p dc [of 0] p0 by simp
  have M: "\<bar>c 20\<bar> \<le> 11" "\<bar>c 20 - decay 20\<bar> \<le> 1 / 2000" using c11 [of 20] c [of 20] by simp_all
  let ?D1 = "map (\<lambda>a. fl_abs (np_sub nm a m)) ?dc"
  have d1: "\<exists>z. ?D1 ! i = Fin \<bar>z\<bar> \<and> \<bar>z - (c (20 + i) - c 20)\<bar> \<le> 1 / 2000" if "i < 31" for i
  proof -
    from sub [OF c11 [of "20 + i"] M(1)] that
    obtain z where "np_sub nm (Fin (c (20 + i))) (Fin (c 20)) = Fin z"
      "\<bar>z - (c (20 + i) - c 20)\<bar> \<le> 1 / 2000" by auto
    then show ?thesis using that ldc dc [OF that] m by auto
  qed
  have n1: "\<not> list_ex isnan ?D1"
  proof -
    have "\<not> isnan (?D1 ! i)" if "i < length ?D1" for i
      using d1 [of i] that ldc by auto
    then show ?thesis by (auto simp: list_ex_iff in_set_conv_nth)
  qed
  have xl: "x_max < 31" using r(4,5) ldc by simp
  have x0: "x_max = 0"
  proof (rule ccontr)
    assume nz: "x_max \<noteq> 0"
    have "fl_ge (?D1 ! 0) (?D1 ! x_max)"
      using first_nearest_least [OF r(3) n1, of 0] ldc by simp
    moreover obtain z0 where z0: "?D1 ! 0 = Fin \<bar>z0\<bar>" "\<bar>z0\<bar> \<le> 1 / 2000"
      using d1 [of 0] by auto
    moreover obtain zx where zx: "?D1 ! x_max = Fin \<bar>zx\<bar>"
      "\<bar>zx - (c (20 + x_max) - c 20)\<bar> \<le> 1 / 2000"
      using d1 [OF xl] by auto
    ultimately have le: "\<bar>zx\<bar> \<le> \<bar>z0\<bar>" by simp
    have "10 / 486 \<le> decay 20 - decay (20 + x_max)" using nz by (intro decay_gap_max) simp
    moreover have "\<bar>c (20 + x_max) - decay (20 + x_max)\<bar> \<le> 1 / 2000"
      using c [of "20 + x_max"] xl by simp
    ultimately show False using le z0(2) zx(2) M(2) by linarith
  qed
  obtain q where q: "np_div nm m (Fin (math_e nm)) = Fin q" "\<bar>q - c 20 / exp 1\<bar> \<le> 1 / 2000"
    using dv [OF M(1)] m by auto
  have "\<bar>c 20 / exp 1 - decay 25\<bar> = \<bar>c 20 - decay 20\<bar> / exp 1"
    unfolding decay_25_20 by (simp add: diff_divide_distrib [symmetric] abs_divide)
  also have "\<dots> \<le> \<bar>c 20 - decay 20\<bar> / 1"
    by (intro divide_left_mono) simp_all
  finally have "\<bar>c 20 / exp 1 - decay 25\<bar> \<le> 1 / 2000" using M(2) by simp
  with q(2) have q25: "\<bar>q - decay 25\<bar> \<le> 2 / 2000" by linarith
  have q11: "\<bar>q\<bar> \<le> 11" using q25 decay_pos [of 25] decay_le_ten [of 25] by linarith
  let ?D2 = "map (\<lambda>a. fl_abs (np_sub nm a (Fin q))) ?dc"
  have f2: "first_nearest ?D2 x_e" using r(6) unfolding x0 q(1) by simp
  have d2: "\<exists>z. ?D2 ! i = Fin \<bar>z\<bar> \<and> \<bar>z - (c (20 + i) - q)\<bar> \<le> 1 / 2000" if "i < 31" for i
  proof -
    from sub [OF c11 [of "20 + i"] q11] that
    obtain z where "np_sub nm (Fin (c (20 + i))) (Fin q) = Fin z"
      "\<bar>z - (c (20 + i) - q)\<bar> \<le> 1 / 2000" by auto
    then show ?thesis using that ldc dc [OF that] by auto
  qed
  have n2: "\<not> list_ex isnan ?D2"
  proof -
    have "\<not> isnan (?D2 ! i)" if "i < length ?D2" for i
      using d2 [of i] that ldc by auto
    then show ?thesis by (auto simp: list_ex_iff in_set_conv_nth)
  qed
  have el: "x_e < 31" using r(5) ldc by simp
  have e5: "x_e = 5"
  proof (rule ccontr)
    assume ne: "x_e \<noteq> 5"
    have "fl_ge (?D2 ! 5) (?D2 ! x_e)"
      using first_nearest_least [OF f2 n2, of 5] ldc by simp
    moreover obtain z5 where z5: "?D2 ! 5 = Fin \<bar>z5\<bar>" "\<bar>z5 - (c 25 - q)\<bar> \<le> 1 / 2000"
      using d2 [of 5] by auto
    moreover obtain ze where ze: "?D2 ! x_e = Fin \<bar>ze\<bar>" "\<bar>ze - (c (20 + x_e) - q)\<bar> \<le> 1 / 2000"
      using d2 [OF el] by auto
    ultimately have le: "\<bar>ze\<bar> \<le> \<bar>z5\<bar>" by simp
    have "10 / 1458 \<le> \<bar>decay (20 + x_e) - decay 25\<bar>" using ne by (intro decay_gap_e) simp
    moreover have "\<bar>c (20 + x_e) - decay (20 + x_e)\<bar> \<le> 1 / 2000"
      using c [of "20 + x_e"] el by simp
    moreover have "\<bar>c 25 - decay 25\<bar> \<le> 1 / 2000" using c [of 25] by simp
    ultimately show False using le z5(2) ze(2) q25 by linarith
  qed
  show ?thesis using r(7) x0 e5 by simp
qed

lemma near_decay_curve: "near_decay (1 / 2000) decay_curve"
proof -
  have "decay_curve ! t = Fin (decay t)" if "t < 51" for t
    using that by (simp add: decay_curve_def del: upt_rec_numeral)
  moreover have "length decay_curve = 51" by (simp add: decay_curve_def del: upt_rec_numeral)
  ultimately show ?thesis by (simp add: near_decay_def)
qed

lemma accurate_exact: "accurate (1 / 2000) exact_numerics"
  by (simp add: accurate_def fl_sub_def)

subsection \<open>Claim C2\<close>

lemma c2_exact: "e_folding_time exact_numerics c2_data = Inr 2"
proof -
  let ?dc = "[Fin 100000000000000000, Fin (- 2), Fin (- 1)]"
  define v :: real where "v = 100000000000000000 / exp 1"
  have "(3 / 2 :: real) \<le> exp (1 / 2)" using exp_ge_add_one_self [of "1 / 2 :: real"] by simp
  then have "(3 / 2 :: real)\<^sup>2 \<le> (exp (1 / 2))\<^sup>2" by (intro power_mono) auto
  also have "(exp (1 / 2 :: real))\<^sup>2 = exp 1" by (simp add: exp_double [symmetric])
  finally have e: "9 / 4 \<le> exp (1::real)" by (simp add: power2_eq_square)
  have v: "0 < v" "v \<le> 45000000000000000"
    using e by (simp_all add: v_def field_simps)
  have m: "nanmax ?dc = Inr (Fin 100000000000000000)" by (simp add: nanmax_def fmax_def)
  have x: "find_nearest exact_numerics ?dc (Fin 100000000000000000) = Inr 0"
    by (simp add: find_nearest_def argmin_def fl_sub_def)
  have q: "np_div exact_numerics (Fin 100000000000000000) (Fin (math_e exact_numerics)) = Fin v"
    by (simp add: v_def)
  have d: "map (\<lambda>a. fl_abs (np_sub exact_numerics a (Fin v))) ?dc
      = [Fin (100000000000000000 - v), Fin (2 + v), Fin (1 + v)]"
    using v by (simp add: fl_sub_def)
  have k: "find_nearest exact_numerics (drop 0 ?dc) (Fin v) = Inr 2"
    unfolding find_nearest_def drop_0 d using v by (simp add: argmin_def)
  show ?thesis
    unfolding e_folding_time_def Let_def c2_copy e_folding_search_def m
    by (simp only: sum.case x q k) simp
qed

text \<open>
  Claim C2 as stated takes for \<open>x_e\<close> the index of the value nearest to the maximum
  over e. The search compares the distances as doubles. In \<open>c2_data\<close> the samples
  after the first 20 are \<open>1e17, -2, -1\<close>: the maximum over e is the double
  36787944117144232, whose neighbours are 8 apart, so the distances of -2 and of -1 to
  it round to the same double and \<open>argmin\<close> takes the first. The estimator returns 1,
  the offset of -2, although -1, at offset 2, is nearer; without rounding the search
  returns 2.
\<close>

theorem e_folding_time_rounded_distance_counterexample:
  "e_folding_time binary64_numerics c2_data = Inr 1
   \<and> nan_to_zero (drop 20 c2_data) = [Fin 100000000000000000, Fin (- 2), Fin (- 1)]
   \<and> np_div binary64_numerics (Fin 100000000000000000) (Fin (math_e binary64_numerics))
       = Fin 36787944117144232
   \<and> \<bar>- 1 - 36787944117144232\<bar> < \<bar>- 2 - (36787944117144232::real)\<bar>
   \<and> e_folding_time exact_numerics c2_data = Inr 2"
  using c2_result c2_copy c2_max_over_e c2_nearer c2_exact by simp

text \<open>
  Claim C2, as amended. For every array of more than 20 samples the estimator searches
  \<open>data_copy\<close>, the samples from index 20 on with 0 in place of NaN. With \<open>m\<close> the
  maximum of \<open>data_copy\<close>, \<open>x_max\<close> is the index that \<open>argmin\<close> returns on the
  rounded distances \<open>|data_copy[i] - m|\<close>, and \<open>x_e\<close> is the index at or after
  \<open>x_max\<close> that \<open>argmin\<close> returns on the rounded distances \<open>|data_copy[i] - m / e|\<close>
  of the samples from \<open>x_max\<close> on: the first distance that is NaN if there is one, and
  otherwise the first index at which the rounded distance is least (the nearest value
  as the doubles measure it, not the first crossing of a threshold). The result is
  \<open>x_e - x_max\<close>. Whenever the distance to \<open>m\<close> is never NaN and is 0 at the samples
  equal to \<open>m\<close> and at no other, as the subtraction of doubles makes it for a finite
  maximum, \<open>x_max\<close> is the first index of the maximum. On an array of 51 samples that
  follows the synthetic curve \<open>10 * exp(-t/5)\<close>, \<open>t = 0..50\<close>, within 1/2000, with an
  arithmetic accurate within 1/2000, the result is 5.
\<close>

theorem e_folding_time_nearest_value:
  "(20 < length data \<longrightarrow>
      (let dc = nan_to_zero (drop 20 data) in
       \<exists>m x_max x_e.
          nanmax dc = Inr m \<and> m \<in> set dc \<and> (\<forall>a\<in>set dc. fl_ge m a)
          \<and> first_nearest (map (\<lambda>a. fl_abs (np_sub nm a m)) dc) x_max
          \<and> x_max \<le> x_e \<and> x_e < length dc
          \<and> first_nearest
               (map (\<lambda>a. fl_abs (np_sub nm a (np_div nm m (Fin (math_e nm)))))
                  (drop x_max dc)) (x_e - x_max)
          \<and> e_folding_time nm data = Inr (int x_e - int x_max)
          \<and> ((\<forall>a\<in>set dc. \<not> isnan (np_sub nm a m) \<and> (np_sub nm a m = Fin 0 \<longleftrightarrow> a = m))
               \<longrightarrow> dc ! x_max = m \<and> (\<forall>i<x_max. dc ! i \<noteq> m))))
   \<and> (near_decay (1 / 2000) data \<and> accurate (1 / 2000) nm \<longrightarrow> e_folding_time nm data = Inr 5)"
  using e_folding_time_first [of data nm] e_folding_decay [of data nm] by blast

text \<open>
  Claim C2, as amended, without rounding: at an array whose samples after the first 20
  are 3, 1 and 0, where the maximum is the first of them, and at the synthetic curve.
\<close>

theorem e_folding_time_nearest_value_witness:
  "20 < length (replicate 20 NaN @ [Fin 3, Fin 1, Fin 0])
   \<and> list_all (\<lambda>a. \<not> isnan (np_sub exact_numerics a (Fin 3))
                    \<and> (np_sub exact_numerics a (Fin 3) = Fin 0) = (a = Fin 3))
        [Fin 3, Fin 1, Fin 0]
   \<and> (\<exists>x_e<3. e_folding_time exact_numerics (replicate 20 NaN @ [Fin 3, Fin 1, Fin 0])
                  = Inr (int x_e))
   \<and> near_decay (1 / 2000) decay_curve \<and> accurate (1 / 2000) exact_numerics
   \<and> e_folding_time exact_numerics decay_curve = Inr 5"
proof -
  let ?w = "replicate 20 NaN @ [Fin 3, Fin 1, Fin 0]"
  let ?dc = "[Fin 3, Fin 1, Fin 0]"
  have dc: "nan_to_zero (drop 20 ?w) = ?dc" by (simp add: nan_to_zero_def)
  have len: "20 < length ?w" by simp
  have m: "nanmax ?dc = Inr (Fin 3)" by (simp add: nanmax_def fmax_def)
  have h: "\<forall>a\<in>set ?dc. \<not> isnan (np_sub exact_numerics a (Fin 3))
      \<and> (np_sub exact_numerics a (Fin 3) = Fin 0 \<longleftrightarrow> a = Fin 3)"
    by (simp add: fl_sub_def)
  from e_folding_time_nearest_value [of ?w exact_numerics] len
  have "\<exists>m x_max x_e. nanmax ?dc = Inr m \<and> x_max \<le> x_e \<and> x_e < length ?dc
      \<and> e_folding_time exact_numerics ?w = Inr (int x_e - int x_max)
      \<and> ((\<forall>a\<in>set ?dc. \<not> isnan (np_sub exact_numerics a m)
               \<and> (np_sub exact_numerics a m = Fin 0 \<longleftrightarrow> a = m))
           \<longrightarrow> ?dc ! x_max = m \<and> (\<forall>i<x_max. ?dc ! i \<noteq> m))"
    unfolding Let_def dc by blast
  then obtain mm x_max x_e where r0: "nanmax ?dc = Inr mm" "x_max \<le> x_e" "x_e < length ?dc"
    "e_folding_time exact_numerics ?w = Inr (int x_e - int x_max)"
    "(\<forall>a\<in>set ?dc. \<not> isnan (np_sub exact_numerics a mm)
               \<and> (np_sub exact_numerics a mm = Fin 0 \<longleftrightarrow> a = mm))
           \<longrightarrow> ?dc ! x_max = mm \<and> (\<forall>i<x_max. ?dc ! i \<noteq> mm)"
    by blast
  have mm: "mm = Fin 3" using r0(1) m by simp
  have r: "x_max \<le> x_e" "x_e < 3"
    "e_folding_time exact_numerics ?w = Inr (int x_e - int x_max)"
    "?dc ! x_max = Fin 3"
    using r0(2,3,4) r0(5) [unfolded mm] h by simp_all
  have "x_max < 3" using r(1,2) by simp
  then have "x_max = 0" using r(4) by (auto simp: less_Suc_eq numeral_3_eq_3)
  then have "\<exists>x_e<3. e_folding_time exact_numerics ?w = Inr (int x_e)" using r(2,3) by auto
  moreover have "e_folding_time exact_numerics decay_curve = Inr 5"
    using e_folding_time_nearest_value [of decay_curve exact_numerics]
      near_decay_curve accurate_exact by blast
  ultimately show ?thesis
    using len near_decay_curve accurate_exact by (simp add: fl_sub_def)
qed

lemma e_folding_time_short:
  "length data \<le> 20 \<Longrightarrow> e_folding_time nm data = Inl ValueError"
  by (simp add: e_folding_time_def e_folding_search_def nan_to_zero_def nanmax_def)

lemma e_folding_time_one_sample:
  assumes "length data = 21"
  shows "e_folding_time nm data = Inr 0"
proof -
  have "length (drop 20 data) = 1" using assms by simp
  then obtain y where y: "drop 20 data = [y]" by (cases "drop 20 data") auto
  show ?thesis
    by (simp add: e_folding_time_def e_folding_search_def y nan_to_zero_def nanmax_def
        find_nearest_def argmin_def)
qed

text \<open>
  Claim C5 as stated has the estimator raise for every segment of length 0 or 1. The
  segment the estimator searches is \<open>data[20:]\<close>; for an array of 21 samples it has
  length 1, and the estimator raises nothing and returns 0.
\<close>

theorem e_folding_time_one_sample_counterexample:
  "length (drop 20 (replicate 20 (Fin 0) @ [Fin 3])) = 1
   \<and> (\<forall>nm. e_folding_time nm (replicate 20 (Fin 0) @ [Fin 3]) = Inr 0)"
proof -
  have "length (replicate 20 (Fin 0) @ [Fin 3]) = 21" by simp
  then have "e_folding_time nm (replicate 20 (Fin 0) @ [Fin 3]) = Inr 0" for nm
    by (rule e_folding_time_one_sample)
  then show ?thesis by simp
qed

text \<open>
  Claim C5, as amended. The estimator has no check of its argument. For every array of
  at most 20 samples, in particular of length 0 or 1, the slice \<open>data[20:]\<close> that it
  searches is empty and the call ends in numpy's ValueError, raised by \<open>np.nanmax\<close>,
  with no offset returned; for an array of 21 samples, whose slice has one sample, it
  raises nothing and returns the offset 0.
\<close>

theorem e_folding_time_short_arrays:
  "(length data \<le> 20 \<longrightarrow> e_folding_time nm data = Inl ValueError)
   \<and> (length data = 21 \<longrightarrow> e_folding_time nm data = Inr 0)"
  using e_folding_time_short [of data nm] e_folding_time_one_sample [of data nm] by blast

text \<open>
  Claim C5, as amended, at the empty array, at an array of one sample and at an array
  of 21 samples.
\<close>

theorem e_folding_time_short_arrays_witness:
  "length ([] :: fl list) \<le> 20 \<and> e_folding_time exact_numerics [] = Inl ValueError
   \<and> length [Fin 1] \<le> 20 \<and> e_folding_time exact_numerics [Fin 1] = Inl ValueError
   \<and> length (replicate 20 NaN @ [Fin 3]) = 21
   \<and> e_folding_time exact_numerics (replicate 20 NaN @ [Fin 3]) = Inr 0"
  using e_folding_time_short_arrays [of "[]" exact_numerics]
    e_folding_time_short_arrays [of "[Fin 1]" exact_numerics]
    e_folding_time_short_arrays [of "replicate 20 NaN @ [Fin 3]" exact_numerics]
  by simp

lemma c6_vals: "map fin_val c6_data = 1 # replicate 21 0"
proof -
  have "replicate 21 (0::real) = replicate 19 0 @ replicate 2 0"
    unfolding replicate_add [symmetric] by simp
  then show ?thesis by (simp add: c6_data_def numeral_2_eq_2)
qed

text \<open>
  Claim C6 as stated has the estimator search the entire array it receives. On
  \<open>c6_data\<close>, whose peak is at index 0, the search of the entire array gives 1 and
  \<open>e_folding_time\<close> gives 0.
\<close>

theorem e_folding_time_leading_samples_counterexample:
  "e_folding_time exact_numerics c6_data = Inr 0 \<and> e_folding_whole exact_numerics c6_data = Inr 1"
proof
  show "e_folding_time exact_numerics c6_data = Inr 0"
    by (simp add: c6_data_def e_folding_time_def e_folding_search_def nan_to_zero_def
        nanmax_def find_nearest_def argmin_def fmax_def fl_sub_def)
  let ?seg = "(1::real) # replicate 21 0"
  have "\<exists>r. e_folding_whole exact_numerics c6_data = Inr r
          \<and> nearest_search (map fin_val c6_data) r"
    by (rule e_folding_whole_nearest) (auto simp: c6_data_def)
  then obtain r where r: "e_folding_whole exact_numerics c6_data = Inr r" "nearest_search ?seg r"
    by (auto simp: c6_vals)
  have mx: "Max (set ?seg) = 1" by simp
  have e1: "1 / exp (1::real) < 1 / 2" using exp_one_gt_two by (simp add: field_simps)
  have e0: "0 < 1 / exp (1::real)" by simp
  have "nearest_search ?seg (int 1 - int 0)"
    unfolding nearest_search_def mx
  proof (rule exI [of _ "0::nat"], rule exI [of _ "1::nat"], intro conjI allI impI)
    show "\<bar>?seg ! 1 - 1 / exp 1\<bar> \<le> \<bar>?seg ! j - 1 / exp 1\<bar>" if "j < length ?seg" for j
      using that e0 e1 by (cases j) auto
    show "\<bar>?seg ! 1 - 1 / exp 1\<bar> < \<bar>?seg ! j - 1 / exp 1\<bar>" if "j < 1" for j
      using that e0 e1 by auto
  qed simp_all
  with r(2) have "r = 1" using nearest_search_unique by fastforce
  with r(1) show "e_folding_whole exact_numerics c6_data = Inr 1" by simp
qed

text \<open>
  Claim C6, as amended. The estimator itself discards the first 20 samples of the array
  it receives (\<open>data[20:]\<close>) and runs the search on the rest, from the first index of
  the rest: its result is that of the whole-segment search on \<open>data[20:]\<close> and does not
  depend on the first 20 samples. The caller passes the whole series.
\<close>

theorem e_folding_time_discards_onset:
  "e_folding_time nm data = e_folding_whole nm (drop 20 data)
   \<and> (length pre = 20 \<and> length pre' = 20 \<longrightarrow>
        e_folding_time nm (pre @ rest) = e_folding_time nm (pre' @ rest))
   \<and> so2_ash_e_time nm data = e_folding_time nm data"
  by (simp add: e_folding_time_def e_folding_whole_def so2_ash_e_time_def)

text \<open>Claim C6, as amended, at two arrays that differ in their first 20 samples.\<close>

theorem e_folding_time_discards_onset_witness:
  "length (replicate 20 (Fin 7)) = 20 \<and> length (replicate 20 NaN) = 20
   \<and> e_folding_time exact_numerics (replicate 20 (Fin 7) @ [Fin 2, Fin 1])
       = e_folding_time exact_numerics (replicate 20 NaN @ [Fin 2, Fin 1])"
  using e_folding_time_discards_onset
    [of exact_numerics "[]" "replicate 20 (Fin 7)" "replicate 20 NaN" "[Fin 2, Fin 1]"]
  by simp

subsection \<open>The estimator and the caller's array\<close>

lemma contents_slice_from: "contents h (slice_from k a) = drop k (contents h a)"
  by (cases "k \<le> len a") (simp_all add: contents_def slice_from_def drop_take min_def add.commute)

lemma length_contents_le: "length (contents h a) \<le> len a"
  by (simp add: contents_def)

lemma copy_then_replace:
  assumes "copy_copy h a = (h1, c)"
  shows "buffers (setitem_isnan_zero h1 c) = buffers h @ [nan_to_zero (contents h a)]"
    and "contents (setitem_isnan_zero h1 c) c = nan_to_zero (contents h a)"
proof -
  have h1: "buffers h1 = buffers h @ [contents h a]" and c: "c = \<lparr>base = length (buffers h), offset = 0, len = len a\<rparr>"
    using assms by (auto simp: copy_copy_def)
  have lc: "length (contents h a) \<le> len a" by (rule length_contents_le)
  show b: "buffers (setitem_isnan_zero h1 c) = buffers h @ [nan_to_zero (contents h a)]"
    using lc by (simp add: setitem_isnan_zero_def h1 c Let_def list_update_append)
  have "contents (setitem_isnan_zero h1 c) c
          = take (len a) (buffers (setitem_isnan_zero h1 c) ! length (buffers h))"
    by (simp add: contents_def c)
  also have "\<dots> = take (len a) (nan_to_zero (contents h a))" by (simp add: b)
  also have "\<dots> = nan_to_zero (contents h a)" using lc by (simp add: nan_to_zero_def)
  finally show "contents (setitem_isnan_zero h1 c) c = nan_to_zero (contents h a)" .
qed

text \<open>
  Claim C10. \<open>e_folding_time\<close> never changes its input: after the call every buffer
  that existed before the call is unchanged, so every element of the caller's array is,
  because the NaN-to-zero replacement is written into the buffer that \<open>copy.copy\<close>
  allocated. The result is that of the function of the contents.
\<close>

theorem e_folding_time_leaves_input:
  assumes "valid_array h data" and "e_folding_time_store nm h data = (h', r)"
  shows "(\<forall>b<length (buffers h). buffers h' ! b = buffers h ! b)
         \<and> contents h' data = contents h data
         \<and> r = e_folding_time nm (contents h data)"
proof -
  obtain h1 c where cc: "copy_copy h (slice_from 20 data) = (h1, c)" by (cases "copy_copy h (slice_from 20 data)")
  have h': "h' = setitem_isnan_zero h1 c" and r: "r = e_folding_search nm (contents (setitem_isnan_zero h1 c) c)"
    using assms(2) by (auto simp: e_folding_time_store_def cc Let_def)
  have b: "buffers h' = buffers h @ [nan_to_zero (drop 20 (contents h data))]"
    unfolding h' using copy_then_replace(1) [OF cc] by (simp add: contents_slice_from)
  have frame: "\<forall>b<length (buffers h). buffers h' ! b = buffers h ! b"
    by (simp add: b nth_append)
  have "base data < length (buffers h)" using assms(1) by (simp add: valid_array_def)
  then have same: "contents h' data = contents h data"
    by (simp add: contents_def b nth_append)
  have "r = e_folding_time nm (contents h data)"
    unfolding r copy_then_replace(2) [OF cc] by (simp add: e_folding_time_def contents_slice_from)
  with frame same show ?thesis by blast
qed

text \<open>Claim C10 at an array with a NaN after index 20.\<close>

theorem e_folding_time_leaves_input_witness:
  "valid_array c10_heap c10_data
   \<and> contents (fst (e_folding_time_store exact_numerics c10_heap c10_data)) c10_data
       = contents c10_heap c10_data
   \<and> contents c10_heap c10_data = replicate 20 (Fin 1) @ [NaN, Fin 2]"
  using e_folding_time_leaves_input [of c10_heap c10_data exact_numerics
      "fst (e_folding_time_store exact_numerics c10_heap c10_data)"
      "snd (e_folding_time_store exact_numerics c10_heap c10_data)"]
  by (simp add: valid_array_def c10_heap_def c10_data_def contents_def)

text \<open>Without the copy the same replacement reaches the caller's array.\<close>

lemma e_folding_time_in_place_writes:
  "contents (fst (e_folding_time_in_place nm c10_heap c10_data)) c10_data
     = replicate 20 (Fin 1) @ [Fin 0, Fin 2]"
  by (simp add: e_folding_time_in_place_def Let_def setitem_isnan_zero_def slice_from_def
      c10_heap_def c10_data_def contents_def nan_to_zero_def)

section \<open>Properties of the masking\<close>

lemma fl_mul_one [simp]: "fl_mul x (Fin 1) = x"
  by (cases x) (simp_all add: inf_of_sign_def)

lemma fl_mul_NaN [simp]: "fl_mul x NaN = NaN"
  by (cases x) simp_all

lemma obs_mask:
  assumes "shape ref = (181, 366)"
  shows "setitem_isnan (ones (181, 366)) ref NaN
           = Inr \<lparr>nrows = 181, ncols = 366,
                  cell = \<lambda>i j. if isnan (cell ref i j) then NaN else Fin 1\<rparr>"
  using assms by (simp add: setitem_isnan_def ones_def shape_def cong: if_cong)

lemma obs_mask_error:
  assumes "(nrows ref \<noteq> 0 \<and> nrows ref \<noteq> 181) \<or> (ncols ref \<noteq> 0 \<and> ncols ref \<noteq> 366)"
  shows "setitem_isnan (ones (181, 366)) ref NaN = Inl IndexError"
  using assms by (auto simp: setitem_isnan_def ones_def shape_def)

lemma obs_mask_empty:
  assumes "shape ref \<noteq> (181, 366)" and "nrows ref = 0 \<or> nrows ref = 181"
    and "ncols ref = 0 \<or> ncols ref = 366"
  shows "setitem_isnan (ones (181, 366)) ref NaN = Inr (ones (181, 366))"
  using assms by (auto simp: setitem_isnan_def ones_def shape_def)

lemma unmasked_product:
  assumes "nrows t = 1 \<or> nrows t = 181" and "ncols t = 1 \<or> ncols t = 366"
  shows "\<exists>out. multiply t (ones (181, 366)) = Inr out
            \<and> shape out = (181, 366)
            \<and> (\<forall>i j. cell out i j =
                  cell t (if nrows t = 1 then 0 else i) (if ncols t = 1 then 0 else j))"
  using assms by (auto simp: multiply_def broadcast_dim_def shape_def ones_def)

lemma unmasked_product_error:
  assumes "\<not> ((nrows t = 1 \<or> nrows t = 181) \<and> (ncols t = 1 \<or> ncols t = 366))"
  shows "multiply t (ones (181, 366)) = Inl ValueError"
  using assms by (auto simp: multiply_def broadcast_dim_def ones_def)

lemma masked_product:
  assumes "shape ref = (181, 366)" and "nrows t = 1 \<or> nrows t = 181" and "ncols t = 1 \<or> ncols t = 366"
  shows "\<exists>out. (case setitem_isnan (ones (181, 366)) ref NaN of Inl err \<Rightarrow> Inl err | Inr m \<Rightarrow> multiply t m) = Inr out
            \<and> shape out = (181, 366)
            \<and> (\<forall>i j. cell out i j =
                  (if isnan (cell ref i j) then NaN
                   else cell t (if nrows t = 1 then 0 else i) (if ncols t = 1 then 0 else j)))"
  using assms(2,3) unfolding obs_mask [OF assms(1)]
  by (auto simp: multiply_def broadcast_dim_def shape_def)

lemma masked_product_error:
  assumes "shape ref = (181, 366)" and "\<not> ((nrows t = 1 \<or> nrows t = 181) \<and> (ncols t = 1 \<or> ncols t = 366))"
  shows "(case setitem_isnan (ones (181, 366)) ref NaN of Inl err \<Rightarrow> Inl err | Inr m \<Rightarrow> multiply t m) = Inl ValueError"
  using assms(2) unfolding obs_mask [OF assms(1)]
  by (auto simp: multiply_def broadcast_dim_def)

text \<open>
  Claim C3, as amended. For a target and a reference of shape 181 by 366 the masked
  output is the elementwise product of the target and the mask, and the mask is 1
  wherever the reference is not NaN (also where it is infinite) and NaN where the
  reference is NaN: every output cell at which the reference is NaN is NaN and every
  other output cell is the target's. So a reference without NaN returns the target
  unchanged. Figure 8 builds \<open>mask510\<close> and its products the same way.
\<close>

theorem masking_by_observations:
  "shape target = (181, 366) \<and> shape reference = (181, 366) \<longrightarrow>
     (\<exists>out. so2_ash_omps_limits target reference = Inr out \<and> shape out = (181, 366) \<and>
        (\<forall>i<181. \<forall>j<366. cell out i j =
            (if isnan (cell reference i j) then NaN else cell target i j)))
     \<and> so2_ash_550_masked target reference = so2_ash_omps_limits target reference
     \<and> so2_only_omps_limits target reference = so2_ash_omps_limits target reference"
proof (intro impI conjI)
  assume a: "shape target = (181, 366) \<and> shape reference = (181, 366)"
  then have t: "nrows target = 1 \<or> nrows target = 181" "ncols target = 1 \<or> ncols target = 366"
    by (auto simp: shape_def)
  from a have n: "nrows target \<noteq> 1" "ncols target \<noteq> 1" by (auto simp: shape_def)
  from masked_product [OF _ t, of reference] a n
  show "\<exists>out. so2_ash_omps_limits target reference = Inr out \<and> shape out = (181, 366) \<and>
        (\<forall>i<181. \<forall>j<366. cell out i j =
            (if isnan (cell reference i j) then NaN else cell target i j))"
    unfolding so2_ash_omps_limits_def mask_omps_def by auto
  show "so2_ash_550_masked target reference = so2_ash_omps_limits target reference"
    by (simp add: so2_ash_550_masked_def so2_ash_omps_limits_def mask_omps_def mask510_def)
  show "so2_only_omps_limits target reference = so2_ash_omps_limits target reference"
    by (simp add: so2_only_omps_limits_def so2_ash_omps_limits_def)
qed

text \<open>Claim C3, as amended, at a reference with an infinite and a NaN cell.\<close>

theorem masking_by_observations_witness:
  "shape (constant_field (181, 366) 2) = (181, 366) \<and> shape c3_reference = (181, 366)
   \<and> (\<exists>out. so2_ash_omps_limits (constant_field (181, 366) 2) c3_reference = Inr out
         \<and> shape out = (181, 366) \<and> cell out 0 0 = Fin 2 \<and> cell out 1 0 = NaN
         \<and> cell out 2 0 = Fin 2)"
  using masking_by_observations [of "constant_field (181, 366) 2" c3_reference]
  by (auto simp: constant_field_def c3_reference_def shape_def)

text \<open>
  Claim C3 as stated makes the mask NaN wherever the reference is not finite. At an
  infinite reference cell the mask is 1 and the output is the target's value.
\<close>

theorem masking_nonfinite_reference_counterexample:
  "\<not> isfinite (cell c3_reference 0 0)
   \<and> result_cell (so2_ash_omps_limits (constant_field (181, 366) 2) c3_reference) 0 0 = Some (Fin 2)"
  by (simp add: c3_reference_def constant_field_def result_cell_def so2_ash_omps_limits_def
      mask_omps_def setitem_isnan_def ones_def shape_def multiply_def broadcast_dim_def)

text \<open>
  Claim C4 as stated has every pair of different shapes fail. A target of one row and
  a reference of 181 rows are multiplied without an error: the row is broadcast.
\<close>

theorem masking_shape_mismatch_counterexample:
  "shape (constant_field (1, 366) 2) \<noteq> shape (constant_field (181, 366) 1)
   \<and> result_shape (so2_ash_omps_limits (constant_field (1, 366) 2) (constant_field (181, 366) 1))
       = Some (181, 366)
   \<and> result_cell (so2_ash_omps_limits (constant_field (1, 366) 2) (constant_field (181, 366) 1)) 5 7
       = Some (Fin 2)"
  by (simp add: constant_field_def result_cell_def result_shape_def so2_ash_omps_limits_def
      mask_omps_def setitem_isnan_def ones_def shape_def multiply_def broadcast_dim_def)

text \<open>
  Claim C4, as amended. Whether the masking fails is decided by each shape against the
  181 by 366 of the mask, not by the two shapes differing. A reference with an axis
  that is neither of length 0 nor the mask's makes the assignment into the mask raise
  IndexError, and there is no output. Otherwise a target with a dimension that is
  neither 1 nor the mask's makes the product raise ValueError, and there is no output.
  Otherwise there is an output of shape 181 by 366, the target broadcast against the
  mask: with a reference of 181 by 366 it is NaN where the reference is NaN and the
  target's value elsewhere, and with a reference that has an axis of length 0 the mask
  stays all ones and every cell is the target's value.
\<close>

theorem masking_shapes:
  "((nrows reference \<noteq> 0 \<and> nrows reference \<noteq> 181)
       \<or> (ncols reference \<noteq> 0 \<and> ncols reference \<noteq> 366) \<longrightarrow>
      so2_ash_omps_limits target reference = Inl IndexError)
   \<and> ((nrows reference = 0 \<or> nrows reference = 181)
        \<and> (ncols reference = 0 \<or> ncols reference = 366)
        \<and> \<not> ((nrows target = 1 \<or> nrows target = 181)
              \<and> (ncols target = 1 \<or> ncols target = 366)) \<longrightarrow>
      so2_ash_omps_limits target reference = Inl ValueError)
   \<and> (shape reference = (181, 366) \<and> (nrows target = 1 \<or> nrows target = 181)
        \<and> (ncols target = 1 \<or> ncols target = 366) \<longrightarrow>
      (\<exists>out. so2_ash_omps_limits target reference = Inr out \<and> shape out = (181, 366) \<and>
         (\<forall>i<181. \<forall>j<366. cell out i j =
            (if isnan (cell reference i j) then NaN
             else cell target (if nrows target = 1 then 0 else i)
                              (if ncols target = 1 then 0 else j)))))
   \<and> (shape reference \<noteq> (181, 366)
        \<and> (nrows reference = 0 \<or> nrows reference = 181)
        \<and> (ncols reference = 0 \<or> ncols reference = 366)
        \<and> (nrows target = 1 \<or> nrows target = 181)
        \<and> (ncols target = 1 \<or> ncols target = 366) \<longrightarrow>
      (\<exists>out. so2_ash_omps_limits target reference = Inr out \<and> shape out = (181, 366) \<and>
         (\<forall>i<181. \<forall>j<366. cell out i j =
            cell target (if nrows target = 1 then 0 else i)
                        (if ncols target = 1 then 0 else j))))"
proof (intro impI conjI)
  assume "(nrows reference \<noteq> 0 \<and> nrows reference \<noteq> 181)
       \<or> (ncols reference \<noteq> 0 \<and> ncols reference \<noteq> 366)"
  then show "so2_ash_omps_limits target reference = Inl IndexError"
    by (simp add: so2_ash_omps_limits_def mask_omps_def obs_mask_error)
next
  assume a: "(nrows reference = 0 \<or> nrows reference = 181)
        \<and> (ncols reference = 0 \<or> ncols reference = 366)
        \<and> \<not> ((nrows target = 1 \<or> nrows target = 181)
              \<and> (ncols target = 1 \<or> ncols target = 366))"
  show "so2_ash_omps_limits target reference = Inl ValueError"
  proof (cases "shape reference = (181, 366)")
    case True
    from masked_product_error [OF True, of target] a show ?thesis
      unfolding so2_ash_omps_limits_def mask_omps_def by blast
  next
    case False
    from a have "setitem_isnan (ones (181, 366)) reference NaN = Inr (ones (181, 366))"
      by (intro obs_mask_empty [OF False]) auto
    with unmasked_product_error [of target] a show ?thesis
      unfolding so2_ash_omps_limits_def mask_omps_def by simp
  qed
next
  assume a: "shape reference = (181, 366) \<and> (nrows target = 1 \<or> nrows target = 181)
          \<and> (ncols target = 1 \<or> ncols target = 366)"
  from masked_product [of reference target] a
  show "\<exists>out. so2_ash_omps_limits target reference = Inr out \<and> shape out = (181, 366) \<and>
           (\<forall>i<181. \<forall>j<366. cell out i j =
              (if isnan (cell reference i j) then NaN
               else cell target (if nrows target = 1 then 0 else i)
                                (if ncols target = 1 then 0 else j)))"
    unfolding so2_ash_omps_limits_def mask_omps_def by auto
next
  assume a: "shape reference \<noteq> (181, 366)
        \<and> (nrows reference = 0 \<or> nrows reference = 181)
        \<and> (ncols reference = 0 \<or> ncols reference = 366)
        \<and> (nrows target = 1 \<or> nrows target = 181)
        \<and> (ncols target = 1 \<or> ncols target = 366)"
  then have "setitem_isnan (ones (181, 366)) reference NaN = Inr (ones (181, 366))"
    by (intro obs_mask_empty) auto
  with unmasked_product [of target] a
  show "\<exists>out. so2_ash_omps_limits target reference = Inr out \<and> shape out = (181, 366) \<and>
         (\<forall>i<181. \<forall>j<366. cell out i j =
            cell target (if nrows target = 1 then 0 else i)
                        (if ncols target = 1 then 0 else j))"
    unfolding so2_ash_omps_limits_def mask_omps_def by auto
qed

text \<open>
  Claim C4, as amended, at one pair of shapes for each of the four cases: a reference
  of 180 rows, a target of 90 rows, a target of one column, and a reference without
  rows.
\<close>

theorem masking_shapes_witness:
  "nrows (constant_field (180, 366) 1) \<noteq> 0 \<and> nrows (constant_field (180, 366) 1) \<noteq> 181
   \<and> so2_ash_omps_limits (constant_field (181, 366) 2) (constant_field (180, 366) 1)
       = Inl IndexError
   \<and> shape (constant_field (181, 366) 1) = (181, 366)
   \<and> nrows (constant_field (90, 366) 2) \<noteq> 1 \<and> nrows (constant_field (90, 366) 2) \<noteq> 181
   \<and> so2_ash_omps_limits (constant_field (90, 366) 2) (constant_field (181, 366) 1)
       = Inl ValueError
   \<and> nrows (constant_field (181, 1) 2) = 181 \<and> ncols (constant_field (181, 1) 2) = 1
   \<and> (\<exists>out. so2_ash_omps_limits (constant_field (181, 1) 2) (constant_field (181, 366) 1) = Inr out
         \<and> shape out = (181, 366) \<and> cell out 3 200 = Fin 2)
   \<and> shape (constant_field (0, 366) 1) = (0, 366)
   \<and> shape (constant_field (181, 366) 2) = (181, 366)
   \<and> (\<exists>out. so2_ash_omps_limits (constant_field (181, 366) 2) (constant_field (0, 366) 1) = Inr out
         \<and> shape out = (181, 366) \<and> cell out 3 200 = Fin 2)"
  using masking_shapes [of "constant_field (180, 366) 1" "constant_field (181, 366) 2"]
    masking_shapes [of "constant_field (181, 366) 1" "constant_field (90, 366) 2"]
    masking_shapes [of "constant_field (181, 366) 1" "constant_field (181, 1) 2"]
    masking_shapes [of "constant_field (0, 366) 1" "constant_field (181, 366) 2"]
  by (auto simp: constant_field_def shape_def)

section \<open>Properties of the latitude-weighted average\<close>

declare upt_rec_numeral [simp del]

lemma length_latitude: "length latitude = 181"
  unfolding latitude_def length_upto by simp

lemma nth_latitude: "i < 181 \<Longrightarrow> latitude ! i = int i - 90"
  unfolding latitude_def by (subst nth_upto) simp_all

lemma length_weighting: "length (weighting nm) = 181"
  unfolding weighting_def length_map by (rule length_latitude)

lemma nth_weighting:
  assumes "i < 181"
  shows "weighting nm ! i = np_cos nm (np_deg2rad nm (int i - 90))"
proof -
  have "weighting nm ! i = np_cos nm (np_deg2rad nm (latitude ! i))"
    unfolding weighting_def using assms by (intro nth_map) (simp add: length_latitude)
  then show ?thesis using assms by (simp add: nth_latitude)
qed

lemma adjust_index_le: "adjust_index i n \<le> n"
  by (auto simp: adjust_index_def)

lemma slice_indices_le: "slice_indices lo hi n = (s, e) \<Longrightarrow> s \<le> n \<and> e \<le> n"
  by (auto simp: slice_indices_def adjust_index_le split: option.splits)

lemma upt_shift: "map (\<lambda>i. s + i) [0..<e - s] = [s..<e]"
proof (cases "s \<le> e")
  case True
  then show ?thesis using map_add_upt [of s "e - s"] by (simp add: add.commute)
next
  case False
  then show ?thesis by simp
qed

lemma map_shift: "map (\<lambda>i. f (s + i)) [0..<e - s] = map f [s..<e]"
proof -
  have "map (\<lambda>i. f (s + i)) [0..<e - s] = map f (map (\<lambda>i. s + i) [0..<e - s])"
    by (simp add: comp_def)
  then show ?thesis by (simp only: upt_shift)
qed

lemma list_all_shift: "list_all (\<lambda>i. P (s + i)) [0..<e - s] = list_all P [s..<e]"
proof -
  have "list_all (\<lambda>i. P (s + i)) [0..<e - s] = list_all P (map (\<lambda>i. s + i) [0..<e - s])"
    by (simp add: list.pred_map comp_def)
  then show ?thesis by (simp only: upt_shift)
qed

text \<open>
  The average over the rows \<open>lo:hi\<close> of a field on the latitude axis, entry by entry, in
  terms of the field and of the clipped bounds.
\<close>

lemma area_average_eq:
  assumes "nrows F = 181" and "slice_indices lo hi 181 = (s, e)"
  shows "area_average nm lo hi F = Inr (map (band_entry nm s e F) [0..<ncols F])"
proof -
  from assms(2) have le: "s \<le> 181" "e \<le> 181" using slice_indices_le by blast+
  let ?w = "take (e - s) (drop s (weighting nm))"
  have G: "rows_slice lo hi F = \<lparr>nrows = e - s, ncols = ncols F, cell = \<lambda>i j. cell F (s + i) j\<rparr>"
    by (simp add: rows_slice_def assms)
  have w: "list_slice lo hi (weighting nm) = ?w"
    by (simp add: list_slice_def length_weighting assms(2))
  have lw: "length ?w = e - s" using le by (simp add: length_weighting)
  have wi: "?w ! i = weighting nm ! (s + i)" if "i < e - s" for i
    using that le by (simp add: length_weighting)
  have entry: "(let wgt = map (\<lambda>i. if \<not> isfinite (cell F (s + i) j) then Fin 0 else Fin (?w ! i))
                            [0..<e - s];
            scl = np_sum nm wgt;
            num = np_sum nm
                    (map (\<lambda>i. if \<not> isfinite (cell F (s + i) j) then Fin 0
                               else np_mul nm (cell F (s + i) j) (Fin (?w ! i))) [0..<e - s])
        in if list_all (\<lambda>i. \<not> isfinite (cell F (s + i) j)) [0..<e - s] then Masked
           else ma_true_divide nm num scl) = band_entry nm s e F j" for j
  proof -
    have "map (\<lambda>i. if \<not> isfinite (cell F (s + i) j) then Fin 0 else Fin (?w ! i)) [0..<e - s]
        = map (\<lambda>i. if isfinite (cell F (s + i) j) then Fin (weighting nm ! (s + i)) else Fin 0)
            [0..<e - s]"
      by (rule map_cong) (use wi in auto)
    also have "\<dots> = map (\<lambda>i. if isfinite (cell F i j) then Fin (weighting nm ! i) else Fin 0)
                      [s..<e]"
      by (rule map_shift
          [of "\<lambda>i. if isfinite (cell F i j) then Fin (weighting nm ! i) else Fin 0"])
    finally have wgt:
      "map (\<lambda>i. if \<not> isfinite (cell F (s + i) j) then Fin 0 else Fin (?w ! i)) [0..<e - s]
        = map (\<lambda>i. if isfinite (cell F i j) then Fin (weighting nm ! i) else Fin 0) [s..<e]" .
    have "map (\<lambda>i. if \<not> isfinite (cell F (s + i) j) then Fin 0
                    else np_mul nm (cell F (s + i) j) (Fin (?w ! i))) [0..<e - s]
        = map (\<lambda>i. if isfinite (cell F (s + i) j)
                    then np_mul nm (cell F (s + i) j) (Fin (weighting nm ! (s + i)))
                    else Fin 0) [0..<e - s]"
      by (rule map_cong) (use wi in auto)
    also have "\<dots> = map (\<lambda>i. if isfinite (cell F i j)
                              then np_mul nm (cell F i j) (Fin (weighting nm ! i))
                              else Fin 0) [s..<e]"
      by (rule map_shift
          [of "\<lambda>i. if isfinite (cell F i j)
                   then np_mul nm (cell F i j) (Fin (weighting nm ! i)) else Fin 0"])
    finally have prod:
      "map (\<lambda>i. if \<not> isfinite (cell F (s + i) j) then Fin 0
                 else np_mul nm (cell F (s + i) j) (Fin (?w ! i))) [0..<e - s]
        = map (\<lambda>i. if isfinite (cell F i j)
                    then np_mul nm (cell F i j) (Fin (weighting nm ! i))
                    else Fin 0) [s..<e]" .
    have all: "list_all (\<lambda>i. \<not> isfinite (cell F (s + i) j)) [0..<e - s]
        = list_all (\<lambda>i. \<not> isfinite (cell F i j)) [s..<e]"
      by (rule list_all_shift [of "\<lambda>i. \<not> isfinite (cell F i j)"])
    show ?thesis unfolding Let_def wgt prod all band_entry_def ..
  qed
  have sel: "mdata (masked_invalid G) = G"
    "\<And>i j. mmask (masked_invalid G) i j = (\<not> isfinite (cell G i j))" for G
    by (simp_all add: masked_invalid_def)
  have "area_average nm lo hi F
      = Inr (map (\<lambda>j.
          let wgt = map (\<lambda>i. if \<not> isfinite (cell F (s + i) j) then Fin 0 else Fin (?w ! i))
                      [0..<e - s];
              scl = np_sum nm wgt;
              num = np_sum nm
                      (map (\<lambda>i. if \<not> isfinite (cell F (s + i) j) then Fin 0
                                 else np_mul nm (cell F (s + i) j) (Fin (?w ! i))) [0..<e - s])
          in if list_all (\<lambda>i. \<not> isfinite (cell F (s + i) j)) [0..<e - s] then Masked
             else ma_true_divide nm num scl) [0..<ncols F])"
    unfolding area_average_def ma_average_axis0_def sel G w
    using le by (simp add: length_weighting Let_def cong: if_cong)
  then show ?thesis by (simp only: entry)
qed

lemma slice_indices_band: "slice_indices 120 None 181 = (120, 181)"
  by (simp add: slice_indices_def adjust_index_def)

lemma omps_area_average_eq:
  assumes "nrows F = 181"
  shows "omps_area_average nm F = Inr (map (band_entry nm 120 181 F) [0..<ncols F])"
  unfolding omps_area_average_def by (rule area_average_eq [OF assms slice_indices_band])

lemma band_entry_empty: "e \<le> s \<Longrightarrow> band_entry nm s e F j = Masked"
  by (simp add: band_entry_def)

lemma band_entry_none:
  assumes "\<forall>i. s \<le> i \<and> i < e \<longrightarrow> \<not> isfinite (cell F i j)"
  shows "band_entry nm s e F j = Masked"
  using assms by (simp add: band_entry_def list_all_iff)



lemma band_entry_cong:
  assumes "\<forall>i. s \<le> i \<and> i < e \<and> (isfinite (cell F i j) \<or> isfinite (cell G i j))
             \<longrightarrow> cell G i j = cell F i j"
  shows "band_entry nm s e G j = band_entry nm s e F j"
proof -
  have fin: "isfinite (cell G i j) = isfinite (cell F i j)" if "i \<in> set [s..<e]" for i
    using assms that by (metis atLeastLessThan_iff set_upt)
  have val: "cell G i j = cell F i j" if "i \<in> set [s..<e]" "isfinite (cell F i j)" for i
    using assms that by simp
  have all: "list_all (\<lambda>i. \<not> isfinite (cell G i j)) [s..<e]
      = list_all (\<lambda>i. \<not> isfinite (cell F i j)) [s..<e]"
    using fin by (simp add: list_all_iff)
  have wgt: "map (\<lambda>i. if isfinite (cell G i j) then Fin (weighting nm ! i) else Fin 0) [s..<e]
      = map (\<lambda>i. if isfinite (cell F i j) then Fin (weighting nm ! i) else Fin 0) [s..<e]"
    by (rule map_cong) (simp_all add: fin)
  have prod: "map (\<lambda>i. if isfinite (cell G i j)
                       then np_mul nm (cell G i j) (Fin (weighting nm ! i)) else Fin 0) [s..<e]
      = map (\<lambda>i. if isfinite (cell F i j)
                  then np_mul nm (cell F i j) (Fin (weighting nm ! i)) else Fin 0) [s..<e]"
    by (rule map_cong) (simp_all add: fin val)
  show ?thesis unfolding band_entry_def all wgt prod ..
qed

text \<open>
  Claim C1, as amended. For every field of 181 latitude rows the average over the band
  of rows 120 onward raises no error and has one entry for each output index \<open>j\<close>. The
  entry is masked (the missing-value marker of \<open>numpy.ma\<close>, not a NaN) when no sample
  of the band is finite at \<open>j\<close>. Otherwise it is the quotient of the sum of
  \<open>F[i] * weight[i]\<close> by the sum of \<open>weight[i]\<close>, both over the band rows at which the
  sample is finite (NaN and the infinities are left out alike, each adding 0), with
  \<open>weight[i] = np.cos(np.deg2rad(latitude[i]))\<close>, the products, the sums and the
  quotient being those of the doubles, whatever their rounding; the quotient is masked
  when it is not finite or its divisor is negligible. The entry depends on the finite
  samples of the band only. Figure 7 takes its means with the same expression.
\<close>

theorem latitude_weighted_average_finite_samples:
  "nrows F = 181 \<longrightarrow>
     omps_area_average nm F = Inr (map (band_entry nm 120 181 F) [0..<ncols F])
     \<and> so2_ash_masked_mean nm F = omps_area_average nm F
     \<and> ((\<forall>i. 120 \<le> i \<and> i < 181 \<longrightarrow> \<not> isfinite (cell F i j))
          \<longrightarrow> band_entry nm 120 181 F j = Masked)
     \<and> ((\<forall>i. 120 \<le> i \<and> i < 181 \<and> (isfinite (cell F i j) \<or> isfinite (cell G i j))
               \<longrightarrow> cell G i j = cell F i j)
          \<longrightarrow> band_entry nm 120 181 G j = band_entry nm 120 181 F j)
     \<and> (k < 181 \<longrightarrow> weighting nm ! k = np_cos nm (np_deg2rad nm (int k - 90)))"
proof (intro conjI impI)
  assume "nrows F = 181"
  then show "omps_area_average nm F = Inr (map (band_entry nm 120 181 F) [0..<ncols F])"
    by (rule omps_area_average_eq)
next
  show "so2_ash_masked_mean nm F = omps_area_average nm F"
    by (simp add: so2_ash_masked_mean_def omps_area_average_def)
next
  assume "\<forall>i. 120 \<le> i \<and> i < 181 \<longrightarrow> \<not> isfinite (cell F i j)"
  then show "band_entry nm 120 181 F j = Masked" by (rule band_entry_none)
next
  assume "\<forall>i. 120 \<le> i \<and> i < 181 \<and> (isfinite (cell F i j) \<or> isfinite (cell G i j))
               \<longrightarrow> cell G i j = cell F i j"
  then show "band_entry nm 120 181 G j = band_entry nm 120 181 F j" by (rule band_entry_cong)
next
  assume "k < 181"
  then show "weighting nm ! k = np_cos nm (np_deg2rad nm (int k - 90))" by (rule nth_weighting)
qed

subsection \<open>The average without rounding, on an example\<close>

lemma exact_weighting_pos:
  assumes "120 \<le> i" "i < 180"
  shows "0 < weighting exact_numerics ! i"
proof -
  have "0 < (real i - 90) * (pi / 180)" using assms by simp
  moreover have "(real i - 90) * (pi / 180) < pi / 2" using assms by simp
  ultimately have "0 < cos ((real i - 90) * (pi / 180))" by (intro cos_gt_zero) auto
  then show ?thesis using assms by (simp add: nth_weighting)
qed

lemma exact_weighting_pole: "weighting exact_numerics ! 180 = 0"
  by (simp add: nth_weighting)

lemma exact_weighting_nonneg:
  assumes "120 \<le> i" "i < 181"
  shows "0 \<le> weighting exact_numerics ! i"
  using exact_weighting_pos [of i] exact_weighting_pole assms by (cases "i = 180") auto

lemma foldl_fl_add_fin: "foldl fl_add (Fin a) (map Fin rs) = Fin (a + sum_list rs)"
  by (induction rs arbitrary: a) (simp_all add: add.assoc)

lemma foldl_fl_add_pinf: "foldl fl_add PInf (map Fin rs) = PInf"
  by (induction rs) simp_all

lemma member_le_sum_list_real:
  fixes f :: "'a \<Rightarrow> real"
  assumes "\<forall>x\<in>set xs. 0 \<le> f x" and "y \<in> set xs"
  shows "f y \<le> sum_list (map f xs)"
  using assms
proof (induction xs)
  case Nil
  then show ?case by simp
next
  case (Cons x xs)
  have nn: "0 \<le> sum_list (map f xs)" using Cons.prems(1) by (intro sum_list_nonneg) auto
  show ?case
  proof (cases "y = x")
    case True
    then show ?thesis using nn by simp
  next
    case False
    then have "f y \<le> sum_list (map f xs)" using Cons by auto
    moreover have "0 \<le> f x" using Cons.prems(1) by simp
    ultimately show ?thesis by simp
  qed
qed

lemma tiny_less_one: "tiny < 1"
proof -
  have "(1::real) < 2 ^ 1022" by (rule one_less_power) simp_all
  then show ?thesis by (simp add: tiny_def)
qed

lemma exact_true_divide_self:
  assumes "0 < x"
  shows "ma_true_divide exact_numerics (Fin x) (Fin x) = Unmasked (Fin 1)"
proof -
  have "x * tiny < x * 1" using assms tiny_less_one by (intro mult_strict_left_mono)
  then have "\<not> x \<le> x * tiny" by simp
  then show ?thesis using assms by (simp add: ma_true_divide_def Let_def)
qed

lemma c1_entry0: "band_entry exact_numerics 120 181 c1_field 0 = Unmasked (Fin 1)"
proof -
  let ?w = "\<lambda>i. if i = 120 then 0 else weighting exact_numerics ! i"
  have prod: "map (\<lambda>i. if isfinite (cell c1_field i 0)
                       then np_mul exact_numerics (cell c1_field i 0)
                              (Fin (weighting exact_numerics ! i))
                       else Fin 0) [120..<181] = map Fin (map ?w [120..<181])"
    unfolding map_map by (rule map_cong) (simp_all add: c1_field_def)
  have wgt: "map (\<lambda>i. if isfinite (cell c1_field i 0) then Fin (weighting exact_numerics ! i)
                      else Fin 0) [120..<181] = map Fin (map ?w [120..<181])"
    unfolding map_map by (rule map_cong) (simp_all add: c1_field_def)
  have some: "\<not> list_all (\<lambda>i. \<not> isfinite (cell c1_field i 0)) [120..<181]"
    by (simp add: list_all_iff c1_field_def) (rule bexI [of _ 121], simp_all)
  have "?w 121 \<le> sum_list (map ?w [120..<181])"
    by (rule member_le_sum_list_real) (auto simp: exact_weighting_nonneg)
  moreover have "0 < ?w 121" using exact_weighting_pos [of 121] by simp
  ultimately have pos: "0 < sum_list (map ?w [120..<181])" by linarith
  have sum: "np_sum exact_numerics (map Fin (map ?w [120..<181]))
      = Fin (sum_list (map ?w [120..<181]))"
    by (simp only: exact_sel foldl_fl_add_fin) simp
  show ?thesis
    unfolding band_entry_def prod wgt sum
    by (simp only: some if_False exact_true_divide_self [OF pos])
qed

lemma c1_entry1: "band_entry nm 120 181 c1_field (Suc 0) = Masked"
  by (rule band_entry_none) (simp add: c1_field_def)

lemma upt_two: "[0..<2] = [0, Suc 0]"
  by (simp add: upt_conv_Cons numeral_2_eq_2)

lemma c1_average: "omps_area_average exact_numerics c1_field = Inr [Unmasked (Fin 1), Masked]"
proof -
  have n: "nrows c1_field = 181" "ncols c1_field = 2" by (simp_all add: c1_field_def)
  show ?thesis
    unfolding omps_area_average_eq [OF n(1)] n(2) upt_two
    by (simp add: c1_entry0 c1_entry1)
qed

lemma c1_spec0: "spec_weighted_average exact_numerics c1_field 0 = PInf"
proof -
  let ?w = "weighting exact_numerics"
  have idx: "filter (\<lambda>i. \<not> isnan (cell c1_field i 0)) [120..<181] = [120..<181]"
    by (rule filter_True) (simp add: c1_field_def)
  have split: "[120..<181] = 120 # [121..<181]" by (simp add: upt_conv_Cons)
  have w120: "0 < ?w ! 120" by (rule exact_weighting_pos) simp_all
  have first: "fl_mul (Fin (?w ! 120)) (cell c1_field 120 0) = PInf"
    using w120 by (simp add: c1_field_def inf_of_sign_def)
  have rest: "map (\<lambda>i. fl_mul (Fin (?w ! i)) (cell c1_field i 0)) [121..<181]
      = map Fin (map (\<lambda>i. ?w ! i) [121..<181])"
    unfolding map_map by (rule map_cong) (auto simp: c1_field_def)
  have num: "foldl fl_add (Fin 0) (map (\<lambda>i. fl_mul (Fin (?w ! i)) (cell c1_field i 0)) [120..<181])
      = PInf"
    unfolding split list.map foldl_Cons first rest
    by (simp only: fl_add.simps foldl_fl_add_pinf)
  have den: "foldl fl_add (Fin 0) (map (\<lambda>i. Fin (?w ! i)) [120..<181])
      = Fin (sum_list (map (\<lambda>i. ?w ! i) [120..<181]))"
    using foldl_fl_add_fin [of 0 "map (\<lambda>i. ?w ! i) [120..<181]"] by (simp add: comp_def)
  have "0 \<le> sum_list (map (\<lambda>i. ?w ! i) [120..<181])"
    by (rule sum_list_nonneg) (auto simp: exact_weighting_nonneg)
  then have "fl_div PInf (Fin (sum_list (map (\<lambda>i. ?w ! i) [120..<181]))) = PInf"
    by (simp add: inf_of_sign_def)
  then show ?thesis
    unfolding spec_weighted_average_def idx Let_def exact_sel num den
    by (simp add: split)
qed

lemma c1_spec1: "spec_weighted_average nm c1_field (Suc 0) = NaN"
  by (simp add: spec_weighted_average_def c1_field_def)

lemma c1_masked: "\<exists>out. omps_area_average nm c1_field = Inr out \<and> out ! Suc 0 = Masked"
proof -
  have n: "nrows c1_field = 181" "ncols c1_field = 2" by (simp_all add: c1_field_def)
  show ?thesis
    unfolding omps_area_average_eq [OF n(1)] n(2) upt_two
    by (simp add: c1_entry1)
qed

text \<open>
  Claim C1 as stated leaves out the NaN samples only and gives NaN for a column of NaN.
  In \<open>c1_field\<close> column 0 is infinite at row 120 and 1 elsewhere, and column 1 is all
  NaN. The entry for column 1 is masked where the stated result is NaN, whatever the
  rounding. The products of column 0 are the weights themselves and its two sums are the
  same sum, so its average is 1 where the stated formula, which keeps the infinite
  sample, gives an infinity.
\<close>

theorem latitude_weighted_average_not_nan_counterexample:
  "omps_area_average exact_numerics c1_field = Inr [Unmasked (Fin 1), Masked]
   \<and> spec_weighted_average exact_numerics c1_field 0 = PInf
   \<and> (\<forall>nm. spec_weighted_average nm c1_field 1 = NaN
           \<and> (\<exists>out. omps_area_average nm c1_field = Inr out \<and> out ! 1 = Masked))"
  using c1_average c1_spec0 c1_spec1 c1_masked by simp

text \<open>
  Claim C1, as amended, at \<open>c1_field\<close> and a copy of it that is NaN where it is
  infinite.
\<close>

theorem latitude_weighted_average_finite_samples_witness:
  "nrows c1_field = 181
   \<and> omps_area_average exact_numerics c1_field
       = Inr (map (band_entry exact_numerics 120 181 c1_field) [0..<ncols c1_field])
   \<and> band_entry exact_numerics 120 181 c1_field 1 = Masked
   \<and> band_entry exact_numerics 120 181 c1_nan_field 0 = band_entry exact_numerics 120 181 c1_field 0
   \<and> weighting exact_numerics ! 120 = cos (real_of_int (int 120 - 90) * (pi / 180))"
proof -
  have n: "nrows c1_field = 181" by (simp add: c1_field_def)
  have h1: "\<forall>i. 120 \<le> i \<and> i < 181 \<longrightarrow> \<not> isfinite (cell c1_field i 1)"
    by (simp add: c1_field_def)
  have h0: "\<forall>i. 120 \<le> i \<and> i < 181
      \<and> (isfinite (cell c1_field i 0) \<or> isfinite (cell c1_nan_field i 0))
      \<longrightarrow> cell c1_nan_field i 0 = cell c1_field i 0"
    by (simp add: c1_field_def c1_nan_field_def)
  show ?thesis
    using latitude_weighted_average_finite_samples [of c1_field exact_numerics 1 c1_nan_field 120]
      latitude_weighted_average_finite_samples [of c1_field exact_numerics 0 c1_nan_field 120]
      n h1 h0
    by simp
qed




subsection \<open>Band boundaries outside the axis\<close>

lemma area_average_misaligned:
  assumes "nrows F \<noteq> 181"
  shows "omps_area_average nm F = Inl ValueError"
proof -
  have "nrows (rows_slice 120 None F) = nrows F - 120"
    by (simp add: rows_slice_def slice_indices_def adjust_index_def)
  moreover have "length (list_slice 120 None (weighting nm)) = 61"
    by (simp add: list_slice_def length_weighting slice_indices_band)
  ultimately show ?thesis
    using assms by (simp add: omps_area_average_def area_average_def ma_average_axis0_def
        masked_invalid_def Let_def)
qed

lemma slice_indices_clipped:
  assumes "slice_indices lo hi 181 = (s, e)"
  shows "slice_indices (int s) (Some (int e)) 181 = (s, e)"
proof -
  from assms have "s \<le> 181" "e \<le> 181" using slice_indices_le by blast+
  then show ?thesis by (auto simp: slice_indices_def adjust_index_def)
qed

text \<open>
  Claim C8 as stated covers every field. The script takes its weights from the fixed
  axis of 181 latitudes, so for a field of 100 rows, for which the band start 120 is
  outside the axis, the slice of the field is empty, the slice of the weights has 61
  entries and \<open>np.ma.average\<close> raises ValueError.
\<close>

theorem area_average_short_field_counterexample:
  "nrows (constant_field (100, 3) 1) = 100
   \<and> (\<forall>nm. omps_area_average nm (constant_field (100, 3) 1) = Inl ValueError)"
proof -
  have "nrows (constant_field (100, 3) 1) \<noteq> 181" by (simp add: constant_field_def)
  then have "omps_area_average nm (constant_field (100, 3) 1) = Inl ValueError" for nm
    by (rule area_average_misaligned)
  then show ?thesis by (simp add: constant_field_def)
qed

text \<open>
  Claim C8, as amended. For every field on the latitude axis of the script (181 rows)
  and every pair of band boundaries \<open>lo:hi\<close>, also outside the range of the axis, the
  average raises no error and returns one entry for each output index. The boundaries
  are clipped to the axis as slices are: a negative boundary counts from the end, a
  boundary below -181 is the start 0, a boundary of 181 or more is the end 181, and an
  absent upper boundary is the end. The result is that of the clipped boundaries
  \<open>s:e\<close>, each entry being the average over the rows from \<open>s\<close> to \<open>e - 1\<close>; when the
  clipped band is empty, \<open>e \<le> s\<close>, every entry is masked.
\<close>

theorem area_average_out_of_range_band:
  "nrows F = 181 \<and> slice_indices lo hi 181 = (s, e) \<longrightarrow>
     area_average nm lo hi F = Inr (map (band_entry nm s e F) [0..<ncols F])
     \<and> s = (if lo < - 181 then 0 else if lo < 0 then nat (lo + 181)
            else if lo < 181 then nat lo else 181)
     \<and> e = (case hi of None \<Rightarrow> 181
            | Some h \<Rightarrow> if h < - 181 then 0 else if h < 0 then nat (h + 181)
                        else if h < 181 then nat h else 181)
     \<and> area_average nm lo hi F = area_average nm (int s) (Some (int e)) F
     \<and> (e \<le> s \<longrightarrow> area_average nm lo hi F = Inr (replicate (ncols F) Masked))"
proof
  assume a: "nrows F = 181 \<and> slice_indices lo hi 181 = (s, e)"
  then have n: "nrows F = 181" and se: "slice_indices lo hi 181 = (s, e)" by simp_all
  have eq: "area_average nm lo hi F = Inr (map (band_entry nm s e F) [0..<ncols F])"
    by (rule area_average_eq [OF n se])
  have s: "s = (if lo < - 181 then 0 else if lo < 0 then nat (lo + 181)
            else if lo < 181 then nat lo else 181)"
    using se by (auto simp: slice_indices_def adjust_index_def)
  have e: "e = (case hi of None \<Rightarrow> 181
            | Some h \<Rightarrow> if h < - 181 then 0 else if h < 0 then nat (h + 181)
                        else if h < 181 then nat h else 181)"
    using se by (auto simp: slice_indices_def adjust_index_def split: option.splits)
  have clip: "area_average nm lo hi F = area_average nm (int s) (Some (int e)) F"
    unfolding eq area_average_eq [OF n slice_indices_clipped [OF se]] ..
  have empty: "area_average nm lo hi F = Inr (replicate (ncols F) Masked)" if "e \<le> s"
  proof -
    have "map (band_entry nm s e F) [0..<ncols F] = map (\<lambda>j. Masked) [0..<ncols F]"
      by (rule map_cong) (simp_all add: band_entry_empty [OF that])
    then show ?thesis unfolding eq by (simp add: map_replicate_const)
  qed
  show "area_average nm lo hi F = Inr (map (band_entry nm s e F) [0..<ncols F])
     \<and> s = (if lo < - 181 then 0 else if lo < 0 then nat (lo + 181)
            else if lo < 181 then nat lo else 181)
     \<and> e = (case hi of None \<Rightarrow> 181
            | Some h \<Rightarrow> if h < - 181 then 0 else if h < 0 then nat (h + 181)
                        else if h < 181 then nat h else 181)
     \<and> area_average nm lo hi F = area_average nm (int s) (Some (int e)) F
     \<and> (e \<le> s \<longrightarrow> area_average nm lo hi F = Inr (replicate (ncols F) Masked))"
    using eq s e clip empty by blast
qed

text \<open>
  Claim C8, as amended, at a band beyond the end of the axis, at bands whose upper
  boundary is below the lower one or below the start of the axis, and at boundaries
  beyond both ends.
\<close>

theorem area_average_out_of_range_band_witness:
  "nrows ramp_field = 181 \<and> ncols ramp_field = 1
   \<and> slice_indices 200 (Some 300) 181 = (181, 181)
   \<and> area_average exact_numerics 200 (Some 300) ramp_field = Inr [Masked]
   \<and> slice_indices 100 (Some 50) 181 = (100, 50)
   \<and> area_average exact_numerics 100 (Some 50) ramp_field = Inr [Masked]
   \<and> slice_indices 5 (Some (- 200)) 181 = (5, 0)
   \<and> area_average exact_numerics 5 (Some (- 200)) ramp_field = Inr [Masked]
   \<and> slice_indices (- 500) (Some 500) 181 = (0, 181)
   \<and> area_average exact_numerics (- 500) (Some 500) ramp_field
       = area_average exact_numerics 0 (Some 181) ramp_field"
proof -
  have n: "nrows ramp_field = 181" "ncols ramp_field = 1" by (simp_all add: ramp_field_def)
  have s: "slice_indices 200 (Some 300) 181 = (181, 181)"
    "slice_indices 100 (Some 50) 181 = (100, 50)"
    "slice_indices 5 (Some (- 200)) 181 = (5, 0)"
    "slice_indices (- 500) (Some 500) 181 = (0, 181)"
    by (simp_all add: slice_indices_def adjust_index_def)
  have a: "area_average exact_numerics 200 (Some 300) ramp_field = Inr [Masked]"
    using area_average_out_of_range_band [of ramp_field 200 "Some 300" 181 181 exact_numerics]
      n s(1)
    by (simp add: band_entry_empty)
  have b: "area_average exact_numerics 100 (Some 50) ramp_field = Inr [Masked]"
    using area_average_out_of_range_band [of ramp_field 100 "Some 50" 100 50 exact_numerics]
      n s(2)
    by (simp add: band_entry_empty)
  have c: "area_average exact_numerics 5 (Some (- 200)) ramp_field = Inr [Masked]"
    using area_average_out_of_range_band [of ramp_field 5 "Some (- 200)" 5 0 exact_numerics]
      n s(3)
    by (simp add: band_entry_empty)
  have "area_average exact_numerics (- 500) (Some 500) ramp_field
      = area_average exact_numerics (int 0) (Some (int 181)) ramp_field"
    using area_average_out_of_range_band [of ramp_field "- 500" "Some 500" 0 181 exact_numerics]
      n s(4)
    by blast
  then have d: "area_average exact_numerics (- 500) (Some 500) ramp_field
      = area_average exact_numerics 0 (Some 181) ramp_field"
    by simp
  show ?thesis using n s a b c d by simp
qed

section \<open>The masks of Figure 8\<close>

lemma support_iff:
  "(i, j) \<in> support a \<longleftrightarrow> 120 \<le> i \<and> i < nrows a \<and> j < ncols a \<and> isfinite (cell a i j)"
  by (auto simp: support_def)

lemma nan_cells_iff:
  "(i, j) \<in> nan_cells a \<longleftrightarrow> i < nrows a \<and> j < ncols a \<and> isnan (cell a i j)"
  by (auto simp: nan_cells_def)

text \<open>
  Claim C9, as amended. In Figure 8 the 865 nm SO2only field is masked with the mask
  of the 510 nm observations and the 865 nm SO2+ash field with the mask of the 869 nm
  observations, and each mean is the band average of its masked field. For fields of
  shape 181 by 366: whenever the NaN patterns of the two observation fields differ at a
  cell of the band (rows 120 to 180) at which both model fields are finite, exactly one
  of the two masked fields contributes that cell, so the two means are taken over
  different sets of cells.
\<close>

theorem figure8_masks_at_865:
  "shape so2_only_865 = (181, 366) \<and> shape so2_ash_865 = (181, 366)
   \<and> shape omps_510 = (181, 366) \<and> shape omps_869 = (181, 366) \<longrightarrow>
     (\<exists>A B. so2_only_865_masked so2_only_865 omps_510 = Inr A
        \<and> so2_ash_865_masked so2_ash_865 omps_869 = Inr B
        \<and> shape A = (181, 366) \<and> shape B = (181, 366)
        \<and> so2_only_865_mean nm so2_only_865 omps_510 = omps_area_average nm A
        \<and> so2_ash_865_mean nm so2_ash_865 omps_869 = omps_area_average nm B
        \<and> (\<forall>i<181. \<forall>j<366.
              cell A i j = (if isnan (cell omps_510 i j) then NaN else cell so2_only_865 i j)
            \<and> cell B i j = (if isnan (cell omps_869 i j) then NaN else cell so2_ash_865 i j))
        \<and> (120 \<le> i \<and> i < 181 \<and> j < 366
            \<and> isnan (cell omps_510 i j) \<noteq> isnan (cell omps_869 i j)
            \<and> isfinite (cell so2_only_865 i j) \<and> isfinite (cell so2_ash_865 i j) \<longrightarrow>
              ((i, j) \<in> support A) \<noteq> ((i, j) \<in> support B) \<and> support A \<noteq> support B))"
proof
  assume a: "shape so2_only_865 = (181, 366) \<and> shape so2_ash_865 = (181, 366)
   \<and> shape omps_510 = (181, 366) \<and> shape omps_869 = (181, 366)"
  then have d: "nrows so2_only_865 = 181" "ncols so2_only_865 = 366"
    "nrows so2_ash_865 = 181" "ncols so2_ash_865 = 366"
    by (simp_all add: shape_def)
  from masked_product [of omps_510 so2_only_865] a d
  obtain A where A: "so2_only_865_masked so2_only_865 omps_510 = Inr A" "shape A = (181, 366)"
    "\<And>i j. cell A i j = (if isnan (cell omps_510 i j) then NaN else cell so2_only_865 i j)"
    unfolding so2_only_865_masked_def mask510_def by auto
  from masked_product [of omps_869 so2_ash_865] a d
  obtain B where B: "so2_ash_865_masked so2_ash_865 omps_869 = Inr B" "shape B = (181, 366)"
    "\<And>i j. cell B i j = (if isnan (cell omps_869 i j) then NaN else cell so2_ash_865 i j)"
    unfolding so2_ash_865_masked_def mask869_def by auto
  have mA: "so2_only_865_mean nm so2_only_865 omps_510 = omps_area_average nm A"
    by (simp add: so2_only_865_mean_def A(1) omps_area_average_def)
  have mB: "so2_ash_865_mean nm so2_ash_865 omps_869 = omps_area_average nm B"
    by (simp add: so2_ash_865_mean_def B(1) omps_area_average_def)
  have diff: "((i, j) \<in> support A) \<noteq> ((i, j) \<in> support B) \<and> support A \<noteq> support B"
    if h: "120 \<le> i \<and> i < 181 \<and> j < 366
            \<and> isnan (cell omps_510 i j) \<noteq> isnan (cell omps_869 i j)
            \<and> isfinite (cell so2_only_865 i j) \<and> isfinite (cell so2_ash_865 i j)"
  proof -
    have sA: "(i, j) \<in> support A \<longleftrightarrow> \<not> isnan (cell omps_510 i j)"
      using h A(2) by (simp add: support_iff shape_def A(3))
    have sB: "(i, j) \<in> support B \<longleftrightarrow> \<not> isnan (cell omps_869 i j)"
      using h B(2) by (simp add: support_iff shape_def B(3))
    have "((i, j) \<in> support A) \<noteq> ((i, j) \<in> support B)" using h sA sB by simp
    then show ?thesis by auto
  qed
  show "\<exists>A B. so2_only_865_masked so2_only_865 omps_510 = Inr A
        \<and> so2_ash_865_masked so2_ash_865 omps_869 = Inr B
        \<and> shape A = (181, 366) \<and> shape B = (181, 366)
        \<and> so2_only_865_mean nm so2_only_865 omps_510 = omps_area_average nm A
        \<and> so2_ash_865_mean nm so2_ash_865 omps_869 = omps_area_average nm B
        \<and> (\<forall>i<181. \<forall>j<366.
              cell A i j = (if isnan (cell omps_510 i j) then NaN else cell so2_only_865 i j)
            \<and> cell B i j = (if isnan (cell omps_869 i j) then NaN else cell so2_ash_865 i j))
        \<and> (120 \<le> i \<and> i < 181 \<and> j < 366
            \<and> isnan (cell omps_510 i j) \<noteq> isnan (cell omps_869 i j)
            \<and> isfinite (cell so2_only_865 i j) \<and> isfinite (cell so2_ash_865 i j) \<longrightarrow>
              ((i, j) \<in> support A) \<noteq> ((i, j) \<in> support B) \<and> support A \<noteq> support B)"
    apply (rule exI [of _ A], rule exI [of _ B])
    using A B mA mB diff by simp
qed

text \<open>Claim C9, as amended, at observations that differ at row 150, day 10.\<close>

theorem figure8_masks_at_865_witness:
  "shape (constant_field (181, 366) 1) = (181, 366) \<and> shape (constant_field (181, 366) 2) = (181, 366)
   \<and> shape w9_omps_510 = (181, 366) \<and> shape c9_omps_869 = (181, 366)
   \<and> isnan (cell w9_omps_510 150 10) \<noteq> isnan (cell c9_omps_869 150 10)
   \<and> (\<exists>A B. so2_only_865_masked (constant_field (181, 366) 1) w9_omps_510 = Inr A
        \<and> so2_ash_865_masked (constant_field (181, 366) 2) c9_omps_869 = Inr B
        \<and> cell A 150 10 = NaN \<and> cell B 150 10 = Fin 2
        \<and> support A \<noteq> support B)"
proof -
  have s: "shape (constant_field (181, 366) 1) = (181, 366)"
    "shape (constant_field (181, 366) 2) = (181, 366)"
    "shape w9_omps_510 = (181, 366)" "shape c9_omps_869 = (181, 366)"
    by (simp_all add: shape_def constant_field_def w9_omps_510_def c9_omps_869_def)
  have c: "isnan (cell w9_omps_510 150 10)" "\<not> isnan (cell c9_omps_869 150 10)"
    "isfinite (cell (constant_field (181, 366) 1) 150 10)"
    "isfinite (cell (constant_field (181, 366) 2) 150 10)"
    "cell (constant_field (181, 366) 2) 150 10 = Fin 2"
    by (simp_all add: constant_field_def w9_omps_510_def c9_omps_869_def)
  from figure8_masks_at_865 [of "constant_field (181, 366) 1" "constant_field (181, 366) 2"
      w9_omps_510 c9_omps_869 exact_numerics 150 10] s c
  obtain A B where AB: "so2_only_865_masked (constant_field (181, 366) 1) w9_omps_510 = Inr A"
    "so2_ash_865_masked (constant_field (181, 366) 2) c9_omps_869 = Inr B"
    "\<forall>i<181. \<forall>j<366.
        cell A i j = (if isnan (cell w9_omps_510 i j) then NaN else cell (constant_field (181, 366) 1) i j)
      \<and> cell B i j = (if isnan (cell c9_omps_869 i j) then NaN else cell (constant_field (181, 366) 2) i j)"
    "support A \<noteq> support B"
    by auto
  from AB(3) have "cell A 150 10 = NaN \<and> cell B 150 10 = Fin 2" using c by simp
  with AB(1,2,4) s c show ?thesis by auto
qed

lemma c9_supports_equal:
  "result_support (so2_only_865_masked c9_so2_only_865 c9_omps_510)
     = result_support (so2_ash_865_masked c9_so2_ash_865 c9_omps_869)
   \<and> result_support (so2_only_865_masked c9_so2_only_865 c9_omps_510) \<noteq> None"
proof -
  have s: "shape c9_omps_510 = (181, 366)" "shape c9_omps_869 = (181, 366)"
    by (simp_all add: shape_def c9_omps_510_def c9_omps_869_def)
  have t: "nrows c9_so2_only_865 = 181" "ncols c9_so2_only_865 = 366"
    "nrows c9_so2_ash_865 = 181" "ncols c9_so2_ash_865 = 366"
    by (simp_all add: c9_so2_only_865_def c9_so2_ash_865_def)
  from masked_product [OF s(1), of c9_so2_only_865] t
  obtain A where A: "so2_only_865_masked c9_so2_only_865 c9_omps_510 = Inr A"
    "shape A = (181, 366)"
    "\<And>i j. cell A i j = (if isnan (cell c9_omps_510 i j) then NaN else cell c9_so2_only_865 i j)"
    unfolding so2_only_865_masked_def mask510_def by auto
  from masked_product [OF s(2), of c9_so2_ash_865] t
  obtain B where B: "so2_ash_865_masked c9_so2_ash_865 c9_omps_869 = Inr B"
    "shape B = (181, 366)"
    "\<And>i j. cell B i j = (if isnan (cell c9_omps_869 i j) then NaN else cell c9_so2_ash_865 i j)"
    unfolding so2_ash_865_masked_def mask869_def by auto
  have "(i, j) \<in> support A \<longleftrightarrow> (i, j) \<in> support B" for i j
    using A(2) B(2) unfolding support_iff A(3) B(3)
    by (simp add: shape_def c9_omps_510_def c9_omps_869_def c9_so2_only_865_def
        c9_so2_ash_865_def)
  then have "support A = support B" by auto
  then show ?thesis by (simp add: result_support_def A(1) B(1))
qed

lemma c9_nan_cells: "nan_cells c9_omps_510 \<noteq> nan_cells c9_omps_869"
proof -
  have "(0, 0) \<in> nan_cells c9_omps_510" by (simp add: nan_cells_iff c9_omps_510_def)
  moreover have "(0, 0) \<notin> nan_cells c9_omps_869" by (simp add: nan_cells_iff c9_omps_869_def)
  ultimately show ?thesis by metis
qed

text \<open>
  Claim C9 as stated draws the conclusion from any difference of the NaN patterns. The
  observations \<open>c9_omps_510\<close> and \<open>c9_omps_869\<close> differ at row 0, which is outside the
  band, and at row 150, day 10, where both model fields are NaN themselves: the two
  means are taken over the same cells.
\<close>

theorem figure8_supports_counterexample:
  "nan_cells c9_omps_510 \<noteq> nan_cells c9_omps_869
   \<and> (150, 10) \<in> nan_cells c9_omps_510 \<and> (150, 10) \<notin> nan_cells c9_omps_869
   \<and> result_support (so2_only_865_masked c9_so2_only_865 c9_omps_510)
       = result_support (so2_ash_865_masked c9_so2_ash_865 c9_omps_869)
   \<and> result_support (so2_only_865_masked c9_so2_only_865 c9_omps_510) \<noteq> None"
proof -
  have "(150, 10) \<in> nan_cells c9_omps_510" by (simp add: nan_cells_iff c9_omps_510_def)
  moreover have "(150, 10) \<notin> nan_cells c9_omps_869" by (simp add: nan_cells_iff c9_omps_869_def)
  ultimately show ?thesis using c9_nan_cells c9_supports_equal by blast
qed

end
